theory Spec2Isabelle
  imports Main "HOL-Library.Word"
begin

section \<open>The NFT protocols registry of \<^verbatim>\<open>nft-protocols-manager.cpp\<close>\<close>

text \<open>
  A shallow embedding of \<^verbatim>\<open>Platform::NftProtocolsManager\<close>. The manager keeps a
  multi-index container of protocol index entries (unique by protocol id, ordered by
  block height), a counter and the chain tip, and writes through to the process-wide
  \<^verbatim>\<open>PlatformDb\<close>. Every member function becomes a function from the state before the
  call to either a fault (a failed \<^verbatim>\<open>assert\<close>, a null dereference, an iterator moved
  out of its container) or a result, each paired with the state reached.
\<close>

subsection \<open>Value types\<close>

type_synonym uint64 = "64 word"
type_synonym uint160 = "160 word"
type_synonym uint256 = "256 word"

text \<open>
  \<^verbatim>\<open>NfTokenProtocol\<close>: the source reads \<^verbatim>\<open>tokenProtocolId\<close> and
  \<^verbatim>\<open>tokenProtocolOwnerId\<close> only; the remaining members of the descriptor are the
  type parameter \<open>'m\<close>.
\<close>

record 'm NfTokenProtocol =
  tokenProtocolId :: uint64
  tokenProtocolOwnerId :: uint160
  tokenProtocolRest :: 'm

text \<open>\<^verbatim>\<open>CBlockIndex\<close>: the members the manager reads.\<close>

record CBlockIndex =
  nHeight :: int
  phashBlock :: uint256

text \<open>\<^verbatim>\<open>CTransaction\<close>: the manager only calls \<^verbatim>\<open>GetHash()\<close>.\<close>

record CTransaction =
  GetHash :: uint256

text \<open>
  \<^verbatim>\<open>NftProtoIndex(pindex, txHash, nftProtoPtr)\<close>. A null index (no descriptor) is
  the value \<open>None\<close> of \<open>'m NftProtoIndex option\<close>; the container only ever holds
  non-null indexes.
\<close>

record 'm NftProtoIndex =
  BlockIndex :: CBlockIndex
  RegTxHash :: uint256
  NftProtoPtr :: "'m NfTokenProtocol"

definition ProtocolId :: "'m NftProtoIndex \<Rightarrow> uint64" where
  "ProtocolId e = tokenProtocolId (NftProtoPtr e)"

definition Height :: "'m NftProtoIndex \<Rightarrow> int" where
  "Height e = nHeight (BlockIndex e)"

text \<open>
  Modelled from the spec: \<^verbatim>\<open>NfToken::UNKNOWN_TOKEN_PROTOCOL\<close> is declared outside the
  sources at hand; the specification reserves the value zero.
\<close>

definition UNKNOWN_TOKEN_PROTOCOL :: uint64 where
  "UNKNOWN_TOKEN_PROTOCOL = 0"

text \<open>\<^verbatim>\<open>IsNull()\<close> of a \<^verbatim>\<open>CKeyID\<close> or hash: all bits zero.\<close>

definition IsNull :: "'a::len word \<Rightarrow> bool" where
  "IsNull h = (h = 0)"

subsection \<open>The multi-index container\<close>

text \<open>
  \<^verbatim>\<open>m_nftProtoIndexSet\<close> is a unique index on the protocol id with a second,
  non-unique ordered index on the block height. The model is the sequence of the height
  view: a list kept in ascending height, a new entry going behind the entries of equal
  height. \<open>find_proto\<close> is \<^verbatim>\<open>find(protocolId)\<close> on the primary index.
\<close>

type_synonym 'm NftProtoIndexSet = "'m NftProtoIndex list"

definition find_proto :: "'m NftProtoIndexSet \<Rightarrow> uint64 \<Rightarrow> 'm NftProtoIndex option" where
  "find_proto s p = List.find (\<lambda>e. ProtocolId e = p) s"

fun insert_by_height :: "'m NftProtoIndex \<Rightarrow> 'm NftProtoIndexSet \<Rightarrow> 'm NftProtoIndexSet" where
  "insert_by_height x [] = [x]"
| "insert_by_height x (y # ys) =
     (if Height x < Height y then x # y # ys else y # insert_by_height x ys)"

text \<open>
  \<^verbatim>\<open>emplace\<close> returns the container, the element its iterator points to (the new
  element, or the one that blocked the insertion) and the flag \<^verbatim>\<open>.second\<close>.
\<close>

definition emplace ::
  "'m NftProtoIndexSet \<Rightarrow> 'm NftProtoIndex \<Rightarrow> 'm NftProtoIndexSet \<times> 'm NftProtoIndex \<times> bool" where
  "emplace s x =
     (case find_proto s (ProtocolId x) of
        Some y \<Rightarrow> (s, y, False)
      | None \<Rightarrow> (insert_by_height x s, x, True))"

text \<open>\<^verbatim>\<open>erase(it)\<close> for the iterator that \<^verbatim>\<open>find(protocolId)\<close> returned.\<close>

fun erase_proto :: "'m NftProtoIndexSet \<Rightarrow> uint64 \<Rightarrow> 'm NftProtoIndexSet" where
  "erase_proto [] p = []"
| "erase_proto (y # ys) p = (if ProtocolId y = p then ys else y # erase_proto ys p)"

subsection \<open>The persistent store\<close>

text \<open>
  Modelled from the spec: the state of \<^verbatim>\<open>PlatformDb\<close>, which is not among the sources
  at hand. It is the persisted counter and the persisted entries in scan order, each
  stored under its protocol id.
\<close>

record 'm PlatformDb =
  dbTotalProtocolCount :: int
  dbNftProtoIndexes :: "'m NftProtoIndex list"

text \<open>Modelled from the spec: \<^verbatim>\<open>ReadTotalCount() \<rightarrow> integer\<close>.\<close>

definition ReadTotalProtocolCount :: "'m PlatformDb \<Rightarrow> int" where
  "ReadTotalProtocolCount db = dbTotalProtocolCount db"

text \<open>Modelled from the spec: \<^verbatim>\<open>WriteTotalCount(integer)\<close>.\<close>

definition WriteTotalProtocolCount :: "'m PlatformDb \<Rightarrow> int \<Rightarrow> 'm PlatformDb" where
  "WriteTotalProtocolCount db n = db\<lparr>dbTotalProtocolCount := n\<rparr>"

text \<open>
  Modelled from the spec: \<^verbatim>\<open>ReadEntry(protocolId) \<rightarrow> Entry (nullable)\<close>; a failed read
  is the null entry.
\<close>

definition ReadNftProtoIndex :: "'m PlatformDb \<Rightarrow> uint64 \<Rightarrow> 'm NftProtoIndex option" where
  "ReadNftProtoIndex db p = find_proto (dbNftProtoIndexes db) p"

text \<open>
  Modelled from the spec: \<^verbatim>\<open>WriteEntry(blockHash, chainRef, txHash, descriptor)\<close>, a
  key-value write under the protocol id: it replaces what was stored under that id.
\<close>

definition WriteNftProtoDiskIndex :: "'m PlatformDb \<Rightarrow> 'm NftProtoIndex \<Rightarrow> 'm PlatformDb" where
  "WriteNftProtoDiskIndex db e =
     db\<lparr>dbNftProtoIndexes :=
          filter (\<lambda>y. ProtocolId y \<noteq> ProtocolId e) (dbNftProtoIndexes db) @ [e]\<rparr>"

text \<open>Modelled from the spec: \<^verbatim>\<open>EraseEntry(protocolId)\<close>.\<close>

definition EraseNftProtoDiskIndex :: "'m PlatformDb \<Rightarrow> uint64 \<Rightarrow> 'm PlatformDb" where
  "EraseNftProtoDiskIndex db p =
     db\<lparr>dbNftProtoIndexes := filter (\<lambda>y. ProtocolId y \<noteq> p) (dbNftProtoIndexes db)\<rparr>"

text \<open>
  Modelled from the spec: \<^verbatim>\<open>ScanAllEntries(callback)\<close>, the absent
  \<^verbatim>\<open>PlatformDb::ProcessNftProtoIndexGutsOnly\<close>. It streams every persisted entry to
  the handler, which works on a state \<open>'s\<close>; an entry whose handler returns false is
  logged (collected in the second component) and the scan goes on.
\<close>

fun ProcessNftProtoIndexGutsOnly ::
  "('s \<Rightarrow> 'm NftProtoIndex \<Rightarrow> bool \<times> 's) \<Rightarrow> 'm NftProtoIndex list \<Rightarrow> 's
     \<Rightarrow> 's \<times> 'm NftProtoIndex list" where
  "ProcessNftProtoIndexGutsOnly handler [] s = (s, [])"
| "ProcessNftProtoIndexGutsOnly handler (e # es) s =
     (case handler s e of
        (ok, s') \<Rightarrow>
          (case ProcessNftProtoIndexGutsOnly handler es s' of
             (s'', skipped) \<Rightarrow> (s'', if ok then skipped else e # skipped)))"

subsection \<open>The manager\<close>

text \<open>
  The members of the class, together with the \<^verbatim>\<open>PlatformDb\<close> singleton that its
  functions write to. The overloads of \<^verbatim>\<open>Contains\<close> and \<^verbatim>\<open>Delete\<close> with an explicit
  height are \<open>Contains_h\<close> and \<open>Delete_h\<close> below.
\<close>

text \<open>
  Modelled from the spec: the type of \<^verbatim>\<open>m_totalProtocolsCount\<close>, which the class
  declaration (not among the sources at hand) fixes; the specification's counter is an
  integer.
\<close>

record 'm NftProtocolsManager =
  m_nftProtoIndexSet :: "'m NftProtoIndexSet"
  m_totalProtocolsCount :: int
  m_tipHeight :: int
  m_tipBlockHash :: uint256
  platformDb :: "'m PlatformDb"

datatype fault = AssertionFailed | NullDereference | IteratorOutOfRange | SignedOverflow

type_synonym ('m, 'a) result =
  "(fault \<times> 'm NftProtocolsManager) + ('a \<times> 'm NftProtocolsManager)"

text \<open>
  The constructor. \<open>ctor_handler\<close> is the lambda it hands to the scan, working on
  \<^verbatim>\<open>m_nftProtoIndexSet\<close>; the second component of the result is what the scan logged.
  The initial tip members come from the class declaration, which is not among the
  sources at hand: they are parameters.
\<close>

definition ctor_handler ::
  "'m NftProtoIndexSet \<Rightarrow> 'm NftProtoIndex \<Rightarrow> bool \<times> 'm NftProtoIndexSet" where
  "ctor_handler s protoIndex =
     (case emplace s protoIndex of (s', it, second) \<Rightarrow> (second, s'))"

definition NftProtocolsManager_ctor ::
  "int \<Rightarrow> uint256 \<Rightarrow> 'm PlatformDb \<Rightarrow> 'm NftProtocolsManager \<times> 'm NftProtoIndex list" where
  "NftProtocolsManager_ctor tipHeight0 tipBlockHash0 db =
     (case ProcessNftProtoIndexGutsOnly ctor_handler (dbNftProtoIndexes db) [] of
        (s, skipped) \<Rightarrow>
          (\<lparr>m_nftProtoIndexSet = s,
            m_totalProtocolsCount = ReadTotalProtocolCount db,
            m_tipHeight = tipHeight0,
            m_tipBlockHash = tipBlockHash0,
            platformDb = db\<rparr>, skipped))"

definition AddNftProto ::
  "'m NftProtocolsManager \<Rightarrow> 'm NfTokenProtocol \<Rightarrow> CTransaction \<Rightarrow> CBlockIndex option
     \<Rightarrow> ('m, bool) result" where
  "AddNftProto st nftProto tx pindex =
     (if \<not> tokenProtocolId nftProto \<noteq> UNKNOWN_TOKEN_PROTOCOL then Inl (AssertionFailed, st)
      else if \<not> \<not> IsNull (tokenProtocolOwnerId nftProto) then Inl (AssertionFailed, st)
      else case pindex of
        None \<Rightarrow> Inl (AssertionFailed, st)
      | Some bi \<Rightarrow>
          if \<not> \<not> IsNull (GetHash tx) then Inl (AssertionFailed, st)
          else
            let nftProtoIndex = \<lparr>BlockIndex = bi, RegTxHash = GetHash tx, NftProtoPtr = nftProto\<rparr>
            in case emplace (m_nftProtoIndexSet st) nftProtoIndex of
                 (s', it, second) \<Rightarrow>
                   if second then
                     let db1 = WriteNftProtoDiskIndex (platformDb st) nftProtoIndex;
                         n = m_totalProtocolsCount st + 1;
                         db2 = WriteTotalProtocolCount db1 n
                     in Inr (True, st\<lparr>m_nftProtoIndexSet := s',
                                      m_totalProtocolsCount := n,
                                      platformDb := db2\<rparr>)
                   else Inr (False, st\<lparr>m_nftProtoIndexSet := s'\<rparr>))"

definition GetNftProtoIndexFromDb ::
  "'m NftProtocolsManager \<Rightarrow> uint64 \<Rightarrow> ('m, 'm NftProtoIndex option) result" where
  "GetNftProtoIndexFromDb st protocolId =
     (case ReadNftProtoIndex (platformDb st) protocolId of
        Some protoIndex \<Rightarrow>
          (case emplace (m_nftProtoIndexSet st) protoIndex of
             (s', it, second) \<Rightarrow>
               if \<not> second then Inl (AssertionFailed, st\<lparr>m_nftProtoIndexSet := s'\<rparr>)
               else Inr (Some it, st\<lparr>m_nftProtoIndexSet := s'\<rparr>))
      | None \<Rightarrow> Inr (None, st))"

definition GetNftProtoIndex ::
  "'m NftProtocolsManager \<Rightarrow> uint64 \<Rightarrow> ('m, 'm NftProtoIndex option) result" where
  "GetNftProtoIndex st protocolId =
     (if \<not> protocolId \<noteq> UNKNOWN_TOKEN_PROTOCOL then Inl (AssertionFailed, st)
      else case find_proto (m_nftProtoIndexSet st) protocolId of
        Some e \<Rightarrow> Inr (Some e, st)
      | None \<Rightarrow> GetNftProtoIndexFromDb st protocolId)"

definition Contains_h :: "'m NftProtocolsManager \<Rightarrow> uint64 \<Rightarrow> int \<Rightarrow> ('m, bool) result" where
  "Contains_h st protocolId height =
     (if \<not> protocolId \<noteq> UNKNOWN_TOKEN_PROTOCOL then Inl (AssertionFailed, st)
      else if \<not> height \<ge> 0 then Inl (AssertionFailed, st)
      else case GetNftProtoIndex st protocolId of
        Inl f \<Rightarrow> Inl f
      | Inr (nftProtoIdx, st') \<Rightarrow>
          (case nftProtoIdx of
             Some e \<Rightarrow> Inr (nHeight (BlockIndex e) \<le> height, st')
           | None \<Rightarrow> Inr (False, st')))"

definition Contains :: "'m NftProtocolsManager \<Rightarrow> uint64 \<Rightarrow> ('m, bool) result" where
  "Contains st protocolId =
     (if \<not> protocolId \<noteq> UNKNOWN_TOKEN_PROTOCOL then Inl (AssertionFailed, st)
      else Contains_h st protocolId (m_tipHeight st))"

definition OwnerOf :: "'m NftProtocolsManager \<Rightarrow> uint64 \<Rightarrow> ('m, uint160) result" where
  "OwnerOf st protocolId =
     (if \<not> protocolId \<noteq> UNKNOWN_TOKEN_PROTOCOL then Inl (AssertionFailed, st)
      else case find_proto (m_nftProtoIndexSet st) protocolId of
        Some e \<Rightarrow> Inr (tokenProtocolOwnerId (NftProtoPtr e), st)
      | None \<Rightarrow>
          (case GetNftProtoIndexFromDb st protocolId of
             Inl f \<Rightarrow> Inl f
           | Inr (None, st') \<Rightarrow> Inl (NullDereference, st')
           | Inr (Some e, st') \<Rightarrow> Inr (tokenProtocolOwnerId (NftProtoPtr e), st')))"

text \<open>
  \<^verbatim>\<open>ProcessNftProtoIndexRangeByHeight\<close>. The range of the height view is its longest
  prefix of entries with \<^verbatim>\<open>curHeight <= height\<close>, so \<^verbatim>\<open>originalRange.second\<close> is at
  position \<open>rangeSize\<close> and \<^verbatim>\<open>std::prev(originalRange.second, k)\<close> at position
  \<open>rangeSize - k\<close> of the whole view. An iterator moved before the first or behind the
  past-the-end position, and a loop that starts behind its end, leave the container.
  \<^verbatim>\<open>startFrom + count\<close> is an addition of two \<^verbatim>\<open>int\<close>; \<^verbatim>\<open>assert(rangeSize >= 0)\<close>
  cannot fail. The result is the sequence of entries the handler was called with and the
  number of failures logged.
\<close>

definition ProcessNftProtoIndexRangeByHeight ::
  "('m NftProtoIndex \<Rightarrow> bool) \<Rightarrow> 'm NftProtocolsManager \<Rightarrow> int \<Rightarrow> int \<Rightarrow> int
     \<Rightarrow> ('m, 'm NftProtoIndex list \<times> nat) result" where
  "ProcessNftProtoIndexRangeByHeight protoIndexHandler st height count startFrom =
     (let view = m_nftProtoIndexSet st;
          rangeSize = int (length (takeWhile (\<lambda>e. nHeight (BlockIndex e) \<le> height) view))
      in if startFrom + count < - (2 ^ 31) \<or> 2 ^ 31 \<le> startFrom + count
         then Inl (SignedOverflow, st)
         else
           let reverseBegin = (if rangeSize < startFrom then rangeSize else startFrom);
               reverseEnd = (if rangeSize < startFrom + count then 0 else reverseBegin - count);
               begin_pos = rangeSize - reverseBegin;
               end_pos = rangeSize - reverseEnd
           in if begin_pos < 0 \<or> int (length view) < begin_pos
                 \<or> end_pos < 0 \<or> int (length view) < end_pos \<or> end_pos < begin_pos
              then Inl (IteratorOutOfRange, st)
              else
                let finalRange = take (nat (end_pos - begin_pos)) (drop (nat begin_pos) view)
                in Inr ((finalRange, length (filter (\<lambda>e. \<not> protoIndexHandler e) finalRange)), st))"

definition Delete_h :: "'m NftProtocolsManager \<Rightarrow> uint64 \<Rightarrow> int \<Rightarrow> ('m, bool) result" where
  "Delete_h st protocolId height =
     (if \<not> protocolId \<noteq> UNKNOWN_TOKEN_PROTOCOL then Inl (AssertionFailed, st)
      else if \<not> height \<ge> 0 then Inl (AssertionFailed, st)
      else case find_proto (m_nftProtoIndexSet st) protocolId of
        None \<Rightarrow> Inr (False, st)
      | Some e \<Rightarrow>
          if nHeight (BlockIndex e) \<le> height then
            let s' = erase_proto (m_nftProtoIndexSet st) protocolId;
                db1 = EraseNftProtoDiskIndex (platformDb st) protocolId;
                n = m_totalProtocolsCount st - 1;
                db2 = WriteTotalProtocolCount db1 n
            in Inr (True, st\<lparr>m_nftProtoIndexSet := s',
                             m_totalProtocolsCount := n,
                             platformDb := db2\<rparr>)
          else Inr (False, st))"

definition Delete :: "'m NftProtocolsManager \<Rightarrow> uint64 \<Rightarrow> ('m, bool) result" where
  "Delete st protocolId = Delete_h st protocolId (m_tipHeight st)"

definition UpdateBlockTip :: "'m NftProtocolsManager \<Rightarrow> CBlockIndex option \<Rightarrow> ('m, unit) result" where
  "UpdateBlockTip st pindex =
     (case pindex of
        None \<Rightarrow> Inl (AssertionFailed, st)
      | Some bi \<Rightarrow> Inr ((), st\<lparr>m_tipHeight := nHeight bi, m_tipBlockHash := phashBlock bi\<rparr>))"

subsection \<open>Concrete registries\<close>

definition mk_index :: "uint64 \<Rightarrow> int \<Rightarrow> unit NftProtoIndex" where
  "mk_index p h =
     \<lparr>BlockIndex = \<lparr>nHeight = h, phashBlock = 1\<rparr>,
      RegTxHash = 1,
      NftProtoPtr = \<lparr>tokenProtocolId = p, tokenProtocolOwnerId = 1, tokenProtocolRest = ()\<rparr>\<rparr>"

definition registry5 :: "unit NftProtocolsManager" where
  "registry5 =
     \<lparr>m_nftProtoIndexSet = [mk_index 1 1, mk_index 2 2, mk_index 3 3, mk_index 4 4, mk_index 5 5],
      m_totalProtocolsCount = 5,
      m_tipHeight = 5,
      m_tipBlockHash = 1,
      platformDb = \<lparr>dbTotalProtocolCount = 5,
                    dbNftProtoIndexes =
                      [mk_index 1 1, mk_index 2 2, mk_index 3 3, mk_index 4 4, mk_index 5 5]\<rparr>\<rparr>"

text \<open>The heights a page visited, in the order of the visits; \<open>None\<close> for a fault.\<close>

definition visited_heights :: "('m, 'm NftProtoIndex list \<times> nat) result \<Rightarrow> int list option" where
  "visited_heights r =
     (case r of Inl f \<Rightarrow> None | Inr ((vs, n), st) \<Rightarrow> Some (map Height vs))"

definition uncached7 :: "unit NftProtocolsManager" where
  "uncached7 =
     \<lparr>m_nftProtoIndexSet = [],
      m_totalProtocolsCount = 1,
      m_tipHeight = 5,
      m_tipBlockHash = 1,
      platformDb = \<lparr>dbTotalProtocolCount = 1, dbNftProtoIndexes = [mk_index 7 3]\<rparr>\<rparr>"

text \<open>A store that holds two entries under the protocol id \<open>1\<close>, and one without collisions.\<close>

definition colliding_db :: "unit PlatformDb" where
  "colliding_db =
     \<lparr>dbTotalProtocolCount = 2,
      dbNftProtoIndexes = [mk_index 1 1, mk_index 2 2, mk_index 1 3]\<rparr>"

definition plain_db :: "unit PlatformDb" where
  "plain_db = \<lparr>dbTotalProtocolCount = 2, dbNftProtoIndexes = [mk_index 2 2, mk_index 1 1]\<rparr>"

definition mk_proto :: "uint64 \<Rightarrow> unit NfTokenProtocol" where
  "mk_proto p = \<lparr>tokenProtocolId = p, tokenProtocolOwnerId = 1, tokenProtocolRest = ()\<rparr>"

definition block_at :: "int \<Rightarrow> CBlockIndex" where
  "block_at h = \<lparr>nHeight = h, phashBlock = 1\<rparr>"

subsection \<open>Sequences of calls\<close>

text \<open>
  The calls a client can make, and a run of a sequence of calls that counts the
  successful additions and deletions. A fault ends the run: the process aborts.
  \<^verbatim>\<open>ProcessFullNftProtoIndexRange\<close> is left out: it is \<^verbatim>\<open>const\<close>, and the order of
  the primary index it walks is fixed in the class declaration.
\<close>

datatype 'm call =
    Call_AddNftProto "'m NfTokenProtocol" CTransaction "CBlockIndex option"
  | Call_Contains uint64
  | Call_Contains_h uint64 int
  | Call_GetNftProtoIndex uint64
  | Call_OwnerOf uint64
  | Call_ProcessNftProtoIndexRangeByHeight "'m NftProtoIndex \<Rightarrow> bool" int int int
  | Call_Delete uint64
  | Call_Delete_h uint64 int
  | Call_UpdateBlockTip "CBlockIndex option"

datatype outcome = AddSucceeded | DeleteSucceeded | Other

fun perform ::
  "'m call \<Rightarrow> 'm NftProtocolsManager
     \<Rightarrow> (fault \<times> 'm NftProtocolsManager) + (outcome \<times> 'm NftProtocolsManager)" where
  "perform (Call_AddNftProto nftProto tx pindex) st =
     (case AddNftProto st nftProto tx pindex of
        Inl f \<Rightarrow> Inl f
      | Inr (b, st') \<Rightarrow> Inr (if b then AddSucceeded else Other, st'))"
| "perform (Call_Contains p) st =
     (case Contains st p of Inl f \<Rightarrow> Inl f | Inr (b, st') \<Rightarrow> Inr (Other, st'))"
| "perform (Call_Contains_h p h) st =
     (case Contains_h st p h of Inl f \<Rightarrow> Inl f | Inr (b, st') \<Rightarrow> Inr (Other, st'))"
| "perform (Call_GetNftProtoIndex p) st =
     (case GetNftProtoIndex st p of Inl f \<Rightarrow> Inl f | Inr (r, st') \<Rightarrow> Inr (Other, st'))"
| "perform (Call_OwnerOf p) st =
     (case OwnerOf st p of Inl f \<Rightarrow> Inl f | Inr (r, st') \<Rightarrow> Inr (Other, st'))"
| "perform (Call_ProcessNftProtoIndexRangeByHeight handler height count startFrom) st =
     (case ProcessNftProtoIndexRangeByHeight handler st height count startFrom of
        Inl f \<Rightarrow> Inl f
      | Inr (r, st') \<Rightarrow> Inr (Other, st'))"
| "perform (Call_Delete p) st =
     (case Delete st p of
        Inl f \<Rightarrow> Inl f
      | Inr (b, st') \<Rightarrow> Inr (if b then DeleteSucceeded else Other, st'))"
| "perform (Call_Delete_h p h) st =
     (case Delete_h st p h of
        Inl f \<Rightarrow> Inl f
      | Inr (b, st') \<Rightarrow> Inr (if b then DeleteSucceeded else Other, st'))"
| "perform (Call_UpdateBlockTip pindex) st =
     (case UpdateBlockTip st pindex of Inl f \<Rightarrow> Inl f | Inr (u, st') \<Rightarrow> Inr (Other, st'))"

fun run ::
  "'m call list \<Rightarrow> 'm NftProtocolsManager \<Rightarrow> nat \<Rightarrow> nat
     \<Rightarrow> (fault \<times> 'm NftProtocolsManager) + ('m NftProtocolsManager \<times> nat \<times> nat)" where
  "run [] st N M = Inr (st, N, M)"
| "run (c # cs) st N M =
     (case perform c st of
        Inl f \<Rightarrow> Inl f
      | Inr (out, st') \<Rightarrow>
          run cs st' (if out = AddSucceeded then Suc N else N)
                     (if out = DeleteSucceeded then Suc M else M))"

text \<open>The empty persistent store: no entries, counter zero.\<close>

definition empty_db :: "'m PlatformDb" where
  "empty_db = \<lparr>dbTotalProtocolCount = 0, dbNftProtoIndexes = []\<rparr>"

subsection \<open>Well-formed registries\<close>

text \<open>
  The container's own invariant in terms of the model: no protocol id twice, heights
  ascending. Then all entries of the registry, cached or persisted, and the property
  that a protocol id names at most one entry among them.
\<close>

definition index_ok :: "'m NftProtoIndexSet \<Rightarrow> bool" where
  "index_ok s \<longleftrightarrow> distinct (map ProtocolId s) \<and> sorted (map Height s)"

definition registry_entries :: "'m NftProtocolsManager \<Rightarrow> 'm NftProtoIndex set" where
  "registry_entries st =
     set (m_nftProtoIndexSet st) \<union> set (dbNftProtoIndexes (platformDb st))"

definition unique_ids :: "'m NftProtocolsManager \<Rightarrow> bool" where
  "unique_ids st \<longleftrightarrow>
     (\<forall>e \<in> registry_entries st. \<forall>e' \<in> registry_entries st.
        ProtocolId e = ProtocolId e' \<longrightarrow> e = e')"

text \<open>
  The bookkeeping of a run: \<open>N\<close> successful additions and \<open>M\<close> successful deletions
  so far, the counter, its persisted copy and the size of the index at \<open>N - M\<close>, and
  no protocol id in the store that the index does not hold.
\<close>

definition counted :: "'m NftProtocolsManager \<Rightarrow> nat \<Rightarrow> nat \<Rightarrow> bool" where
  "counted st N M \<longleftrightarrow>
     M \<le> N \<and> length (m_nftProtoIndexSet st) = N - M
     \<and> m_totalProtocolsCount st = int N - int M
     \<and> dbTotalProtocolCount (platformDb st) = int N - int M
     \<and> ProtocolId ` set (dbNftProtoIndexes (platformDb st))
         \<subseteq> ProtocolId ` set (m_nftProtoIndexSet st)"

text \<open>
  The cache is complete when the store holds no protocol id that the index lacks: then
  a miss in the index is a miss in the store.
\<close>

definition cache_complete :: "'m NftProtocolsManager \<Rightarrow> bool" where
  "cache_complete st \<longleftrightarrow>
     ProtocolId ` set (dbNftProtoIndexes (platformDb st))
       \<subseteq> ProtocolId ` set (m_nftProtoIndexSet st)"

section \<open>The container\<close>

text \<open>
  \<^verbatim>\<open>find\<close>, insertion and \<^verbatim>\<open>erase\<close> on the model of the container.
\<close>

lemma find_proto_None_iff: "find_proto s p = None \<longleftrightarrow> p \<notin> ProtocolId ` set s"
  by (auto simp: find_proto_def find_None_iff)

lemma find_proto_SomeD: "find_proto s p = Some e \<Longrightarrow> e \<in> set s \<and> ProtocolId e = p"
  unfolding find_proto_def by (induction s) (auto split: if_splits)

lemma find_proto_Cons:
  "find_proto (y # ys) p = (if ProtocolId y = p then Some y else find_proto ys p)"
  by (simp add: find_proto_def)

lemma find_proto_Nil: "find_proto [] p = None"
  by (simp add: find_proto_def)

lemma find_proto_in_set:
  "e \<in> set s \<Longrightarrow> \<exists>y. find_proto s (ProtocolId e) = Some y"
  using find_proto_None_iff [of s "ProtocolId e"] by (cases "find_proto s (ProtocolId e)") auto

lemma find_proto_unique:
  "distinct (map ProtocolId s) \<Longrightarrow> e \<in> set s \<Longrightarrow> find_proto s (ProtocolId e) = Some e"
  by (induction s) (auto simp: find_proto_Cons rev_image_eqI)

lemma find_proto_filter_neq:
  "find_proto (filter (\<lambda>y. ProtocolId y \<noteq> p) s) q = (if q = p then None else find_proto s q)"
  by (induction s) (auto simp: find_proto_Cons find_proto_Nil)

lemma set_insert_by_height: "set (insert_by_height x s) = insert x (set s)"
  by (induction s) auto

lemma length_insert_by_height: "length (insert_by_height x s) = Suc (length s)"
  by (induction s) auto

lemma find_proto_insert_by_height:
  "find_proto s (ProtocolId x) = None \<Longrightarrow>
   find_proto (insert_by_height x s) p = (if p = ProtocolId x then Some x else find_proto s p)"
  by (induction s) (auto simp: find_proto_Cons find_proto_Nil split: if_splits)

lemma length_erase_proto:
  "find_proto s p = Some e \<Longrightarrow> Suc (length (erase_proto s p)) = length s"
  by (induction s) (auto simp: find_proto_Cons find_proto_Nil split: if_splits)

lemma set_erase_proto_subset: "set (erase_proto s p) \<subseteq> set s"
  by (induction s) auto

lemma ids_erase_proto: "ProtocolId ` set s - {p} \<subseteq> ProtocolId ` set (erase_proto s p)"
  by (induction s) auto

lemma set_erase_proto_distinct:
  "distinct (map ProtocolId s) \<Longrightarrow> set (erase_proto s p) = {e \<in> set s. ProtocolId e \<noteq> p}"
  by (induction s) (auto simp: rev_image_eqI)

lemma find_proto_erase_proto:
  "distinct (map ProtocolId s) \<Longrightarrow>
   find_proto (erase_proto s p) q = (if q = p then None else find_proto s q)"
  by (induction s) (auto simp: find_proto_Cons find_proto_Nil find_proto_None_iff)

text \<open>
  Insertion and erasure keep the protocol ids distinct and the heights ascending.
\<close>

lemma distinct_insert_by_height:
  "distinct (map ProtocolId s) \<Longrightarrow> find_proto s (ProtocolId x) = None \<Longrightarrow>
   distinct (map ProtocolId (insert_by_height x s))"
  by (induction s)
    (auto simp: find_proto_Cons find_proto_None_iff set_insert_by_height split: if_splits)

lemma distinct_erase_proto:
  "distinct (map ProtocolId s) \<Longrightarrow> distinct (map ProtocolId (erase_proto s p))"
proof (induction s)
  case Nil
  then show ?case by simp
next
  case (Cons y ys)
  have "ProtocolId y \<notin> ProtocolId ` set (erase_proto ys p)"
    using Cons.prems set_erase_proto_subset [of ys p] by auto
  with Cons show ?case by simp
qed

lemma sorted_insert_by_height:
  "sorted (map Height s) \<Longrightarrow> sorted (map Height (insert_by_height x s))"
  by (induction s) (auto simp: set_insert_by_height)

lemma sorted_erase_proto:
  "sorted (map Height s) \<Longrightarrow> sorted (map Height (erase_proto s p))"
proof (induction s)
  case Nil
  then show ?case by simp
next
  case (Cons y ys)
  have "\<forall>e \<in> set (erase_proto ys p). Height y \<le> Height e"
    using Cons.prems set_erase_proto_subset [of ys p] by auto
  with Cons show ?case by simp
qed

lemma index_ok_emplace:
  assumes "index_ok s" and "emplace s x = (s', it, second)"
  shows "index_ok s'"
proof (cases "find_proto s (ProtocolId x)")
  case None
  with assms show ?thesis
    by (auto simp: emplace_def index_ok_def distinct_insert_by_height sorted_insert_by_height)
next
  case (Some y)
  with assms show ?thesis by (auto simp: emplace_def)
qed

lemma index_ok_erase_proto: "index_ok s \<Longrightarrow> index_ok (erase_proto s p)"
  by (simp add: index_ok_def distinct_erase_proto sorted_erase_proto)

section \<open>Pagination by height\<close>

lemma ProcessNftProtoIndexRangeByHeight_const:
  "ProcessNftProtoIndexRangeByHeight handler st height count startFrom = Inr (r, st') \<Longrightarrow> st' = st"
  by (auto simp: ProcessNftProtoIndexRangeByHeight_def Let_def split: if_splits)

text \<open>
  What the code visits for non-negative \<open>startFrom\<close> and \<open>count\<close>, with \<open>n\<close> the
  size of the range. When \<open>n < startFrom + count\<close> it is the last \<open>min n startFrom\<close>
  entries of the range, however small \<open>count\<close> is. Otherwise it is \<open>count\<close> entries of
  the whole view from position \<open>n - startFrom\<close> on, towards the most recent end and, for
  \<open>startFrom < count\<close>, beyond the range; when that runs past the end of the container
  the end iterator has left it.
\<close>

lemma page_clamped:
  assumes "0 \<le> startFrom" and "0 \<le> count" and "startFrom + count < 2 ^ 31"
    and "int (length (takeWhile (\<lambda>e. nHeight (BlockIndex e) \<le> height) (m_nftProtoIndexSet st)))
           < startFrom + count"
  shows "\<exists>k. ProcessNftProtoIndexRangeByHeight handler st height count startFrom
           = Inr ((drop (length (takeWhile (\<lambda>e. nHeight (BlockIndex e) \<le> height)
                                   (m_nftProtoIndexSet st)) - nat startFrom)
                     (takeWhile (\<lambda>e. nHeight (BlockIndex e) \<le> height) (m_nftProtoIndexSet st)),
                   k), st)"
proof -
  define view where "view = m_nftProtoIndexSet st"
  define R where "R = takeWhile (\<lambda>e. nHeight (BlockIndex e) \<le> height) view"
  define n where "n = length R"
  have le: "n \<le> length view"
    unfolding n_def R_def by (rule length_takeWhile_le)
  have R: "R = take n view"
    unfolding n_def R_def by (rule takeWhile_eq_take)
  have dr: "drop (n - nat startFrom) R = take (n - (n - nat startFrom)) (drop (n - nat startFrom) view)"
    unfolding R by (simp add: drop_take)
  show ?thesis
  proof (cases "int n < startFrom")
    case True
    then have "n - nat startFrom = 0" by linarith
    with True assms le show ?thesis
      using dr
      by (simp add: ProcessNftProtoIndexRangeByHeight_def Let_def
          view_def [symmetric] R_def [symmetric] n_def [symmetric])
  next
    case False
    then have "nat (int n - startFrom) = n - nat startFrom"
      and "nat startFrom = n - (n - nat startFrom)"
      using assms(1) by linarith+
    with False assms le show ?thesis
      using dr
      by (simp add: ProcessNftProtoIndexRangeByHeight_def Let_def
          view_def [symmetric] R_def [symmetric] n_def [symmetric])
  qed
qed

lemma page_forward:
  assumes "0 \<le> startFrom" and "0 \<le> count" and "startFrom + count < 2 ^ 31"
    and "startFrom + count
           \<le> int (length (takeWhile (\<lambda>e. nHeight (BlockIndex e) \<le> height) (m_nftProtoIndexSet st)))"
  shows "ProcessNftProtoIndexRangeByHeight handler st height count startFrom =
           (if int (length (m_nftProtoIndexSet st))
                 < int (length (takeWhile (\<lambda>e. nHeight (BlockIndex e) \<le> height)
                                  (m_nftProtoIndexSet st))) - startFrom + count
            then Inl (IteratorOutOfRange, st)
            else Inr ((take (nat count)
                        (drop (length (takeWhile (\<lambda>e. nHeight (BlockIndex e) \<le> height)
                                         (m_nftProtoIndexSet st)) - nat startFrom)
                           (m_nftProtoIndexSet st)),
                       length (filter (\<lambda>e. \<not> handler e)
                         (take (nat count)
                           (drop (length (takeWhile (\<lambda>e. nHeight (BlockIndex e) \<le> height)
                                            (m_nftProtoIndexSet st)) - nat startFrom)
                              (m_nftProtoIndexSet st))))), st))"
proof -
  define view where "view = m_nftProtoIndexSet st"
  define n where "n = length (takeWhile (\<lambda>e. nHeight (BlockIndex e) \<le> height) view)"
  have le: "n \<le> length view"
    unfolding n_def by (rule length_takeWhile_le)
  have "nat (int n - startFrom) = n - nat startFrom"
    using assms(1) by linarith
  with assms le show ?thesis
    by (simp add: ProcessNftProtoIndexRangeByHeight_def Let_def
        view_def [symmetric] n_def [symmetric])
qed

text \<open>
  C1. The specification's examples for the page over heights \<open>[1,2,3,4,5]\<close> with
  \<open>height = 5\<close> and \<open>count = 2\<close> are \<open>[4,5]\<close> for \<open>startFrom = 0\<close>, \<open>[2,3]\<close> for
  \<open>startFrom = 2\<close> and \<open>[1,2]\<close> for \<open>startFrom = 4\<close>. The code computes something else:
  with \<open>startFrom = 2\<close> the handler is called on the heights \<open>[4,5]\<close>, with
  \<open>startFrom = 4\<close> on \<open>[2,3,4,5]\<close>, and with \<open>startFrom = 0\<close> the value of
  \<^verbatim>\<open>reverseEnd\<close> is \<open>-2\<close>, so the end iterator is moved two positions behind the
  past-the-end position of the container.
\<close>

theorem C1_page_examples_on_code:
  "visited_heights (ProcessNftProtoIndexRangeByHeight (\<lambda>e. True) registry5 5 2 2) = Some [4, 5]
   \<and> visited_heights (ProcessNftProtoIndexRangeByHeight (\<lambda>e. True) registry5 5 2 4)
       = Some [2, 3, 4, 5]
   \<and> ProcessNftProtoIndexRangeByHeight (\<lambda>e. True) registry5 5 2 0
       = Inl (IteratorOutOfRange, registry5)"
  by (simp add: visited_heights_def ProcessNftProtoIndexRangeByHeight_def registry5_def
      mk_index_def Height_def Let_def)

text \<open>
  C2. The specification has the page empty when \<open>startFrom\<close> is at least the size of
  the range. On the registry with heights \<open>[1,2,3,4,5]\<close>, \<open>height = 5\<close>, \<open>count = 2\<close>
  and \<open>startFrom = 10\<close> the code clamps \<^verbatim>\<open>reverseBegin\<close> to the range size and sets
  \<^verbatim>\<open>reverseEnd\<close> to \<open>0\<close>: the handler is called on all five entries.
\<close>

theorem C2_page_startFrom_beyond_range_on_code:
  "visited_heights (ProcessNftProtoIndexRangeByHeight (\<lambda>e. True) registry5 5 2 10)
     = Some [1, 2, 3, 4, 5]"
  by (simp add: visited_heights_def ProcessNftProtoIndexRangeByHeight_def registry5_def
      mk_index_def Height_def Let_def)

section \<open>Construction\<close>

text \<open>
  One step of the scan with the constructor's handler: a new protocol id is inserted,
  a known one is skipped and logged.
\<close>

lemma scan_Cons_new:
  "find_proto s (ProtocolId e) = None \<Longrightarrow>
   ProcessNftProtoIndexGutsOnly ctor_handler (e # es) s
     = ProcessNftProtoIndexGutsOnly ctor_handler es (insert_by_height e s)"
  by (simp add: ctor_handler_def emplace_def split: prod.splits)

lemma scan_Cons_dup:
  "find_proto s (ProtocolId e) = Some y \<Longrightarrow>
   ProcessNftProtoIndexGutsOnly ctor_handler (e # es) s
     = (fst (ProcessNftProtoIndexGutsOnly ctor_handler es s),
        e # snd (ProcessNftProtoIndexGutsOnly ctor_handler es s))"
  by (simp add: ctor_handler_def emplace_def split: prod.splits)

lemma scan_find:
  "find_proto (fst (ProcessNftProtoIndexGutsOnly ctor_handler es s)) p
     = (case find_proto s p of Some y \<Rightarrow> Some y | None \<Rightarrow> find_proto es p)"
proof (induction es arbitrary: s)
  case Nil
  then show ?case by (simp add: find_proto_Nil split: option.splits)
next
  case (Cons e es)
  show ?case
  proof (cases "find_proto s (ProtocolId e)")
    case None
    then show ?thesis
      by (auto simp: scan_Cons_new Cons.IH find_proto_insert_by_height find_proto_Cons
          simp del: ProcessNftProtoIndexGutsOnly.simps split: option.splits)
  next
    case (Some y)
    then show ?thesis
      by (auto simp: scan_Cons_dup Cons.IH find_proto_Cons
          simp del: ProcessNftProtoIndexGutsOnly.simps split: option.splits)
  qed
qed

lemma scan_set:
  "set (fst (ProcessNftProtoIndexGutsOnly ctor_handler es s))
   \<union> set (snd (ProcessNftProtoIndexGutsOnly ctor_handler es s)) = set s \<union> set es"
proof (induction es arbitrary: s)
  case Nil
  then show ?case by simp
next
  case (Cons e es)
  show ?case
  proof (cases "find_proto s (ProtocolId e)")
    case None
    have "set (fst (ProcessNftProtoIndexGutsOnly ctor_handler (e # es) s))
          \<union> set (snd (ProcessNftProtoIndexGutsOnly ctor_handler (e # es) s))
            = set (insert_by_height e s) \<union> set es"
      by (simp only: scan_Cons_new [OF None] Cons.IH)
    then show ?thesis by (simp add: set_insert_by_height del: ProcessNftProtoIndexGutsOnly.simps)
  next
    case (Some y)
    have "set (fst (ProcessNftProtoIndexGutsOnly ctor_handler (e # es) s))
          \<union> set (snd (ProcessNftProtoIndexGutsOnly ctor_handler (e # es) s))
            = insert e (set s \<union> set es)"
      using Cons.IH [of s] by (simp add: scan_Cons_dup [OF Some] del: ProcessNftProtoIndexGutsOnly.simps)
    then show ?thesis by (simp del: ProcessNftProtoIndexGutsOnly.simps)
  qed
qed

lemma scan_length:
  "length (fst (ProcessNftProtoIndexGutsOnly ctor_handler es s))
   + length (snd (ProcessNftProtoIndexGutsOnly ctor_handler es s)) = length s + length es"
proof (induction es arbitrary: s)
  case Nil
  then show ?case by simp
next
  case (Cons e es)
  show ?case
  proof (cases "find_proto s (ProtocolId e)")
    case None
    show ?thesis
      by (simp add: scan_Cons_new [OF None] Cons.IH length_insert_by_height
          del: ProcessNftProtoIndexGutsOnly.simps)
  next
    case (Some y)
    show ?thesis
      using Cons.IH [of s]
      by (simp add: scan_Cons_dup [OF Some] del: ProcessNftProtoIndexGutsOnly.simps)
  qed
qed

lemma scan_distinct:
  "distinct (map ProtocolId s) \<Longrightarrow>
   distinct (map ProtocolId (fst (ProcessNftProtoIndexGutsOnly ctor_handler es s)))"
proof (induction es arbitrary: s)
  case Nil
  then show ?case by simp
next
  case (Cons e es)
  show ?case
  proof (cases "find_proto s (ProtocolId e)")
    case None
    show ?thesis
      using Cons.prems
      by (simp add: scan_Cons_new [OF None] Cons.IH distinct_insert_by_height [OF _ None]
          del: ProcessNftProtoIndexGutsOnly.simps)
  next
    case (Some y)
    show ?thesis
      using Cons.prems
      by (simp add: scan_Cons_dup [OF Some] Cons.IH del: ProcessNftProtoIndexGutsOnly.simps)
  qed
qed

lemma scan_sorted:
  "sorted (map Height s) \<Longrightarrow>
   sorted (map Height (fst (ProcessNftProtoIndexGutsOnly ctor_handler es s)))"
proof (induction es arbitrary: s)
  case Nil
  then show ?case by simp
next
  case (Cons e es)
  show ?case
  proof (cases "find_proto s (ProtocolId e)")
    case None
    show ?thesis
      using Cons.prems
      by (simp add: scan_Cons_new [OF None] Cons.IH sorted_insert_by_height
          del: ProcessNftProtoIndexGutsOnly.simps)
  next
    case (Some y)
    show ?thesis
      using Cons.prems
      by (simp add: scan_Cons_dup [OF Some] Cons.IH del: ProcessNftProtoIndexGutsOnly.simps)
  qed
qed

text \<open>
  Whatever the scan skipped has the protocol id of an entry that made it into the
  container.
\<close>

lemma scan_skipped:
  "y \<in> set (snd (ProcessNftProtoIndexGutsOnly ctor_handler es s)) \<Longrightarrow>
   ProtocolId y \<in> ProtocolId ` set (fst (ProcessNftProtoIndexGutsOnly ctor_handler es s))"
proof (induction es arbitrary: s)
  case Nil
  then show ?case by simp
next
  case (Cons e es)
  show ?case
  proof (cases "find_proto s (ProtocolId e)")
    case None
    show ?thesis
      using Cons.prems Cons.IH [of "insert_by_height e s"]
      by (simp add: scan_Cons_new [OF None] del: ProcessNftProtoIndexGutsOnly.simps)
  next
    case (Some z)
    have "find_proto (fst (ProcessNftProtoIndexGutsOnly ctor_handler es s)) (ProtocolId e) = Some z"
      by (simp add: scan_find Some)
    then have "ProtocolId e \<in> ProtocolId ` set (fst (ProcessNftProtoIndexGutsOnly ctor_handler es s))"
      using find_proto_None_iff [of "fst (ProcessNftProtoIndexGutsOnly ctor_handler es s)" "ProtocolId e"]
      by simp
    then show ?thesis
      using Cons.prems Cons.IH [of s]
      by (auto simp: scan_Cons_dup [OF Some] simp del: ProcessNftProtoIndexGutsOnly.simps)
  qed
qed

lemma scan_no_collision:
  "distinct (map ProtocolId es) \<Longrightarrow> ProtocolId ` set es \<inter> ProtocolId ` set s = {} \<Longrightarrow>
   snd (ProcessNftProtoIndexGutsOnly ctor_handler es s) = []"
proof (induction es arbitrary: s)
  case Nil
  then show ?case by simp
next
  case (Cons e es)
  have None: "find_proto s (ProtocolId e) = None"
    using Cons.prems(2) by (auto simp: find_proto_None_iff)
  have "ProtocolId ` set es \<inter> ProtocolId ` set (insert_by_height e s) = {}"
    using Cons.prems by (auto simp: set_insert_by_height)
  then show ?case
    using Cons.prems(1)
    by (simp add: scan_Cons_new [OF None] Cons.IH del: ProcessNftProtoIndexGutsOnly.simps)
qed

lemma index_ok_ctor:
  "index_ok (m_nftProtoIndexSet (fst (NftProtocolsManager_ctor tipHeight0 tipBlockHash0 db)))"
proof -
  have "index_ok (fst (ProcessNftProtoIndexGutsOnly ctor_handler (dbNftProtoIndexes db) []))"
    unfolding index_ok_def by (simp add: scan_distinct scan_sorted)
  then show ?thesis
    by (auto simp: NftProtocolsManager_ctor_def split: prod.splits)
qed

text \<open>
  C4. The constructor takes the counter from the store and leaves the store as it
  is. It offers every persisted entry to the container: for each protocol id the index
  holds the first persisted entry with that id, every persisted entry is either in the
  index or among the skipped ones, the skipped ones are exactly as many as the index
  falls short of the store, each of them collides with an entry of the index, and the ids
  of the index are distinct. When the persisted entries have distinct ids nothing is
  skipped and the index holds them all.
\<close>

theorem C4_constructor_loads_store:
  "m_totalProtocolsCount (fst (NftProtocolsManager_ctor tipHeight0 tipBlockHash0 db))
     = ReadTotalProtocolCount db
   \<and> platformDb (fst (NftProtocolsManager_ctor tipHeight0 tipBlockHash0 db)) = db
   \<and> (\<forall>p. find_proto (m_nftProtoIndexSet (fst (NftProtocolsManager_ctor tipHeight0 tipBlockHash0 db))) p
           = ReadNftProtoIndex db p)
   \<and> set (m_nftProtoIndexSet (fst (NftProtocolsManager_ctor tipHeight0 tipBlockHash0 db)))
       \<union> set (snd (NftProtocolsManager_ctor tipHeight0 tipBlockHash0 db))
       = set (dbNftProtoIndexes db)
   \<and> length (m_nftProtoIndexSet (fst (NftProtocolsManager_ctor tipHeight0 tipBlockHash0 db)))
       + length (snd (NftProtocolsManager_ctor tipHeight0 tipBlockHash0 db))
       = length (dbNftProtoIndexes db)
   \<and> (\<forall>y \<in> set (snd (NftProtocolsManager_ctor tipHeight0 tipBlockHash0 db)).
         ProtocolId y \<in> ProtocolId `
           set (m_nftProtoIndexSet (fst (NftProtocolsManager_ctor tipHeight0 tipBlockHash0 db))))
   \<and> distinct (map ProtocolId
         (m_nftProtoIndexSet (fst (NftProtocolsManager_ctor tipHeight0 tipBlockHash0 db))))
   \<and> (distinct (map ProtocolId (dbNftProtoIndexes db)) \<longrightarrow>
         snd (NftProtocolsManager_ctor tipHeight0 tipBlockHash0 db) = []
         \<and> set (m_nftProtoIndexSet (fst (NftProtocolsManager_ctor tipHeight0 tipBlockHash0 db)))
             = set (dbNftProtoIndexes db))"
proof -
  let ?r = "ProcessNftProtoIndexGutsOnly ctor_handler (dbNftProtoIndexes db) []"
  have c: "NftProtocolsManager_ctor tipHeight0 tipBlockHash0 db =
          (\<lparr>m_nftProtoIndexSet = fst ?r,
            m_totalProtocolsCount = ReadTotalProtocolCount db,
            m_tipHeight = tipHeight0,
            m_tipBlockHash = tipBlockHash0,
            platformDb = db\<rparr>, snd ?r)"
    by (simp add: NftProtocolsManager_ctor_def split: prod.splits)
  have 1: "\<forall>p. find_proto (fst ?r) p = ReadNftProtoIndex db p"
    by (simp add: scan_find find_proto_Nil ReadNftProtoIndex_def)
  have 2: "set (fst ?r) \<union> set (snd ?r) = set (dbNftProtoIndexes db)"
    using scan_set [of "dbNftProtoIndexes db" "[]"] by simp
  have 3: "length (fst ?r) + length (snd ?r) = length (dbNftProtoIndexes db)"
    using scan_length [of "dbNftProtoIndexes db" "[]"] by simp
  have 4: "\<forall>y \<in> set (snd ?r). ProtocolId y \<in> ProtocolId ` set (fst ?r)"
    using scan_skipped by blast
  have 5: "distinct (map ProtocolId (fst ?r))"
    by (rule scan_distinct) simp
  have 6: "distinct (map ProtocolId (dbNftProtoIndexes db)) \<longrightarrow>
             snd ?r = [] \<and> set (fst ?r) = set (dbNftProtoIndexes db)"
  proof
    assume d: "distinct (map ProtocolId (dbNftProtoIndexes db))"
    have "snd ?r = []" by (rule scan_no_collision [OF d]) simp
    with 2 show "snd ?r = [] \<and> set (fst ?r) = set (dbNftProtoIndexes db)" by simp
  qed
  show ?thesis
    unfolding c fst_conv snd_conv using 1 2 3 4 5 6 by simp
qed

text \<open>
  The constructor on a store without collisions, and on one that holds two entries
  under the protocol id \<open>1\<close>: the second of them is skipped, the scan still reaches the
  entries behind it.
\<close>

theorem C4_constructor_witness:
  "distinct (map ProtocolId (dbNftProtoIndexes plain_db))
   \<and> snd (NftProtocolsManager_ctor 5 1 plain_db) = []
   \<and> set (m_nftProtoIndexSet (fst (NftProtocolsManager_ctor 5 1 plain_db)))
       = {mk_index 1 1, mk_index 2 2}
   \<and> mk_index 1 3 \<in> set (snd (NftProtocolsManager_ctor 5 1 colliding_db))
   \<and> ProtocolId (mk_index 1 3)
       \<in> ProtocolId ` set (m_nftProtoIndexSet (fst (NftProtocolsManager_ctor 5 1 colliding_db)))
   \<and> find_proto (m_nftProtoIndexSet (fst (NftProtocolsManager_ctor 5 1 colliding_db))) 2
       = Some (mk_index 2 2)"
proof -
  have d: "distinct (map ProtocolId (dbNftProtoIndexes plain_db))"
    by (simp add: plain_db_def mk_index_def ProtocolId_def)
  have s: "set (dbNftProtoIndexes plain_db) = {mk_index 1 1, mk_index 2 2}"
    by (auto simp: plain_db_def)
  have k: "mk_index 1 3 \<in> set (snd (NftProtocolsManager_ctor 5 1 colliding_db))"
    by (simp add: NftProtocolsManager_ctor_def colliding_db_def ctor_handler_def emplace_def
        find_proto_def mk_index_def ProtocolId_def Height_def)
  have r: "ReadNftProtoIndex colliding_db 2 = Some (mk_index 2 2)"
    by (simp add: ReadNftProtoIndex_def colliding_db_def find_proto_def mk_index_def ProtocolId_def)
  show ?thesis
    using d s k r C4_constructor_loads_store [of 5 1 plain_db]
      C4_constructor_loads_store [of 5 1 colliding_db]
    by simp
qed

section \<open>Registration\<close>

text \<open>
  C5. When the index already holds an entry with the descriptor's protocol id,
  \<^verbatim>\<open>AddNftProto\<close> with valid arguments returns false and the state after the call is
  the state before it: index, counter, tip and persistent store (entries and persisted
  counter) are untouched.
\<close>

theorem C5_duplicate_add_changes_nothing:
  assumes "e \<in> set (m_nftProtoIndexSet st)"
    and "ProtocolId e = tokenProtocolId nftProto"
    and "tokenProtocolId nftProto \<noteq> UNKNOWN_TOKEN_PROTOCOL"
    and "\<not> IsNull (tokenProtocolOwnerId nftProto)"
    and "\<not> IsNull (GetHash tx)"
  shows "AddNftProto st nftProto tx (Some bi) = Inr (False, st)"
proof -
  obtain y where "find_proto (m_nftProtoIndexSet st) (tokenProtocolId nftProto) = Some y"
    using find_proto_in_set [OF assms(1)] assms(2) by auto
  then show ?thesis
    using assms(3-5) by (simp add: AddNftProto_def emplace_def ProtocolId_def)
qed

text \<open>
  A second registration of protocol \<open>3\<close> on the registry with the protocols
  \<open>1\<close> to \<open>5\<close>.
\<close>

theorem C5_duplicate_add_witness:
  "mk_index 3 3 \<in> set (m_nftProtoIndexSet registry5)
   \<and> ProtocolId (mk_index 3 3) = tokenProtocolId (mk_proto 3)
   \<and> tokenProtocolId (mk_proto 3) \<noteq> UNKNOWN_TOKEN_PROTOCOL
   \<and> \<not> IsNull (tokenProtocolOwnerId (mk_proto 3))
   \<and> \<not> IsNull (GetHash \<lparr>GetHash = 9\<rparr>)
   \<and> AddNftProto registry5 (mk_proto 3) \<lparr>GetHash = 9\<rparr> (Some (block_at 8)) = Inr (False, registry5)"
proof -
  have 1: "mk_index 3 3 \<in> set (m_nftProtoIndexSet registry5)"
    by (simp add: registry5_def)
  have 2: "ProtocolId (mk_index 3 3) = tokenProtocolId (mk_proto 3)"
    by (simp add: ProtocolId_def mk_index_def mk_proto_def)
  have 3: "tokenProtocolId (mk_proto 3) \<noteq> UNKNOWN_TOKEN_PROTOCOL"
    by (simp add: mk_proto_def UNKNOWN_TOKEN_PROTOCOL_def)
  have 4: "\<not> IsNull (tokenProtocolOwnerId (mk_proto 3))"
    by (simp add: mk_proto_def IsNull_def)
  have 5: "\<not> IsNull (GetHash \<lparr>GetHash = 9\<rparr>)"
    by (simp add: IsNull_def)
  show ?thesis
    using 1 2 3 4 5 C5_duplicate_add_changes_nothing [OF 1 2 3 4 5, of "block_at 8"] by simp
qed

text \<open>
  C9. For a valid descriptor whose protocol id is not in the index,
  \<^verbatim>\<open>AddNftProto\<close> succeeds, and \<^verbatim>\<open>GetNftProtoIndex\<close> on the state it leaves returns
  a non-null entry that carries this descriptor (with the transaction hash and block of
  the registration) and changes nothing.
\<close>

theorem C9_add_then_lookup:
  assumes "tokenProtocolId d \<noteq> UNKNOWN_TOKEN_PROTOCOL"
    and "\<not> IsNull (tokenProtocolOwnerId d)"
    and "\<not> IsNull (GetHash tx)"
    and "find_proto (m_nftProtoIndexSet st) (tokenProtocolId d) = None"
  shows "\<exists>st' e. AddNftProto st d tx (Some bi) = Inr (True, st')
           \<and> GetNftProtoIndex st' (tokenProtocolId d) = Inr (Some e, st')
           \<and> NftProtoPtr e = d \<and> RegTxHash e = GetHash tx \<and> BlockIndex e = bi"
  using assms
  by (simp add: AddNftProto_def emplace_def ProtocolId_def Let_def GetNftProtoIndex_def
      find_proto_insert_by_height)

text \<open>
  Registering protocol \<open>9\<close> on the registry with the protocols \<open>1\<close> to \<open>5\<close>.
\<close>

theorem C9_add_then_lookup_witness:
  "tokenProtocolId (mk_proto 9) \<noteq> UNKNOWN_TOKEN_PROTOCOL
   \<and> \<not> IsNull (tokenProtocolOwnerId (mk_proto 9))
   \<and> \<not> IsNull (GetHash \<lparr>GetHash = 9\<rparr>)
   \<and> find_proto (m_nftProtoIndexSet registry5) (tokenProtocolId (mk_proto 9)) = None
   \<and> (\<exists>st' e. AddNftProto registry5 (mk_proto 9) \<lparr>GetHash = 9\<rparr> (Some (block_at 8)) = Inr (True, st')
         \<and> GetNftProtoIndex st' 9 = Inr (Some e, st') \<and> NftProtoPtr e = mk_proto 9)"
proof -
  have 1: "tokenProtocolId (mk_proto 9) \<noteq> UNKNOWN_TOKEN_PROTOCOL"
    by (simp add: mk_proto_def UNKNOWN_TOKEN_PROTOCOL_def)
  have 2: "\<not> IsNull (tokenProtocolOwnerId (mk_proto 9))"
    by (simp add: mk_proto_def IsNull_def)
  have 3: "\<not> IsNull (GetHash \<lparr>GetHash = 9\<rparr>)"
    by (simp add: IsNull_def)
  have 4: "find_proto (m_nftProtoIndexSet registry5) (tokenProtocolId (mk_proto 9)) = None"
    by (simp add: registry5_def find_proto_def mk_proto_def mk_index_def ProtocolId_def)
  have 5: "tokenProtocolId (mk_proto 9) = 9"
    by (simp add: mk_proto_def)
  show ?thesis
    using 1 2 3 4 C9_add_then_lookup [OF 1 2 3 4, of "block_at 8"] unfolding 5 by blast
qed

section \<open>Deletion\<close>

text \<open>
  C6. For a protocol id other than the reserved one and a height \<open>h \<ge> 0\<close>:
  if the index holds an entry with that id whose height is at most \<open>h\<close>, then
  \<^verbatim>\<open>Delete(protocolId, h)\<close> returns true, the index loses exactly the entry with that
  id, the store has no entry under that id and its other entries are as before, the
  counter is one less and the persisted counter equals it, and the tip is unchanged.
  Otherwise it returns false and the state is unchanged. The overload without a height
  is the call with the tip height.
\<close>

theorem C6_delete_by_height:
  assumes "distinct (map ProtocolId (m_nftProtoIndexSet st))"
    and "protocolId \<noteq> UNKNOWN_TOKEN_PROTOCOL"
    and "0 \<le> height"
  shows "(if \<exists>e \<in> set (m_nftProtoIndexSet st). ProtocolId e = protocolId \<and> Height e \<le> height
          then \<exists>st'. Delete_h st protocolId height = Inr (True, st')
                 \<and> set (m_nftProtoIndexSet st')
                     = {e \<in> set (m_nftProtoIndexSet st). ProtocolId e \<noteq> protocolId}
                 \<and> ReadNftProtoIndex (platformDb st') protocolId = None
                 \<and> (\<forall>q. q \<noteq> protocolId \<longrightarrow>
                       ReadNftProtoIndex (platformDb st') q = ReadNftProtoIndex (platformDb st) q)
                 \<and> m_totalProtocolsCount st' = m_totalProtocolsCount st - 1
                 \<and> ReadTotalProtocolCount (platformDb st') = m_totalProtocolsCount st - 1
                 \<and> m_tipHeight st' = m_tipHeight st \<and> m_tipBlockHash st' = m_tipBlockHash st
          else Delete_h st protocolId height = Inr (False, st))
         \<and> Delete st protocolId = Delete_h st protocolId (m_tipHeight st)"
proof -
  let ?s = "m_nftProtoIndexSet st"
  have overload: "Delete st protocolId = Delete_h st protocolId (m_tipHeight st)"
    by (simp add: Delete_def)
  show ?thesis
  proof (cases "\<exists>e \<in> set ?s. ProtocolId e = protocolId \<and> Height e \<le> height")
    case True
    then obtain e where e: "e \<in> set ?s" "ProtocolId e = protocolId" "Height e \<le> height"
      by blast
    have f: "find_proto ?s protocolId = Some e"
      using find_proto_unique [OF assms(1) e(1)] e(2) by simp
    show ?thesis
      using True assms f e(3) overload
      by (simp add: Delete_h_def Let_def Height_def set_erase_proto_distinct
          ReadNftProtoIndex_def EraseNftProtoDiskIndex_def WriteTotalProtocolCount_def
          ReadTotalProtocolCount_def find_proto_filter_neq)
  next
    case False
    show ?thesis
    proof (cases "find_proto ?s protocolId")
      case None
      with False assms overload show ?thesis by (simp add: Delete_h_def)
    next
      case (Some y)
      then have "y \<in> set ?s" "ProtocolId y = protocolId"
        using find_proto_SomeD by blast+
      with False have "\<not> Height y \<le> height" by blast
      with False Some assms overload show ?thesis by (simp add: Delete_h_def Height_def)
    qed
  qed
qed

text \<open>
  Deleting protocol \<open>3\<close>, registered at height \<open>3\<close>, as of height \<open>5\<close> and as of
  height \<open>2\<close>.
\<close>

theorem C6_delete_by_height_witness:
  "distinct (map ProtocolId (m_nftProtoIndexSet registry5))
   \<and> (3 :: uint64) \<noteq> UNKNOWN_TOKEN_PROTOCOL
   \<and> (0 :: int) \<le> 5
   \<and> (\<exists>st'. Delete_h registry5 3 5 = Inr (True, st')
         \<and> ReadNftProtoIndex (platformDb st') 3 = None
         \<and> m_totalProtocolsCount st' = 4
         \<and> ReadTotalProtocolCount (platformDb st') = 4)
   \<and> Delete_h registry5 3 2 = Inr (False, registry5)"
proof -
  have 1: "distinct (map ProtocolId (m_nftProtoIndexSet registry5))"
    by (simp add: registry5_def mk_index_def ProtocolId_def)
  have 2: "(3 :: uint64) \<noteq> UNKNOWN_TOKEN_PROTOCOL"
    by (simp add: UNKNOWN_TOKEN_PROTOCOL_def)
  have 3: "(0 :: int) \<le> 5"
    by simp
  have 6: "(0 :: int) \<le> 2"
    by simp
  have yes: "\<exists>e \<in> set (m_nftProtoIndexSet registry5). ProtocolId e = 3 \<and> Height e \<le> 5"
    by (simp add: registry5_def mk_index_def ProtocolId_def Height_def)
  have no: "\<not> (\<exists>e \<in> set (m_nftProtoIndexSet registry5). ProtocolId e = 3 \<and> Height e \<le> 2)"
    by (simp add: registry5_def mk_index_def ProtocolId_def Height_def)
  have c: "m_totalProtocolsCount registry5 = 5"
    by (simp add: registry5_def)
  have a: "\<exists>st'. Delete_h registry5 3 5 = Inr (True, st')
         \<and> ReadNftProtoIndex (platformDb st') 3 = None
         \<and> m_totalProtocolsCount st' = 4
         \<and> ReadTotalProtocolCount (platformDb st') = 4"
    using C6_delete_by_height [OF 1 2 3] yes c by (simp only: if_True) auto
  have b: "Delete_h registry5 3 2 = Inr (False, registry5)"
    using C6_delete_by_height [OF 1 2 6] no by (simp only: if_False)
  show ?thesis using 1 2 3 a b by blast
qed

section \<open>Queries\<close>

lemma GetNftProtoIndexFromDb_miss:
  assumes "find_proto (m_nftProtoIndexSet st) p = None"
  shows "GetNftProtoIndexFromDb st p =
           (case ReadNftProtoIndex (platformDb st) p of
              None \<Rightarrow> Inr (None, st)
            | Some e \<Rightarrow>
                Inr (Some e, st\<lparr>m_nftProtoIndexSet := insert_by_height e (m_nftProtoIndexSet st)\<rparr>))"
proof (cases "ReadNftProtoIndex (platformDb st) p")
  case None
  then show ?thesis by (simp add: GetNftProtoIndexFromDb_def)
next
  case (Some e)
  then have "ProtocolId e = p"
    using find_proto_SomeD by (auto simp: ReadNftProtoIndex_def)
  with Some assms show ?thesis
    by (simp add: GetNftProtoIndexFromDb_def emplace_def)
qed

lemma index_ok_GetNftProtoIndexFromDb:
  assumes "index_ok (m_nftProtoIndexSet st)" and "GetNftProtoIndexFromDb st p = Inr (r, st')"
  shows "index_ok (m_nftProtoIndexSet st')"
proof (cases "ReadNftProtoIndex (platformDb st) p")
  case None
  with assms show ?thesis by (auto simp: GetNftProtoIndexFromDb_def)
next
  case (Some e)
  obtain s' it second where e: "emplace (m_nftProtoIndexSet st) e = (s', it, second)"
    by (cases "emplace (m_nftProtoIndexSet st) e") auto
  with assms(2) Some have "st' = st\<lparr>m_nftProtoIndexSet := s'\<rparr>"
    by (auto simp: GetNftProtoIndexFromDb_def split: if_splits)
  with index_ok_emplace [OF assms(1) e] show ?thesis by simp
qed

text \<open>
  C7. In a registry where a protocol id names at most one entry, for a protocol id
  other than the reserved one and a height \<open>h \<ge> 0\<close>, \<^verbatim>\<open>Contains(protocolId, h)\<close>
  returns true if and only if an entry with that id, in the index or in the persistent
  store, has a height of at most \<open>h\<close>.
\<close>

theorem C7_contains_by_height:
  assumes "unique_ids st"
    and "protocolId \<noteq> UNKNOWN_TOKEN_PROTOCOL"
    and "0 \<le> height"
  shows "\<exists>st'. Contains_h st protocolId height
           = Inr ((\<exists>e \<in> registry_entries st. ProtocolId e = protocolId \<and> Height e \<le> height), st')"
proof (cases "find_proto (m_nftProtoIndexSet st) protocolId")
  case (Some y)
  then have y: "y \<in> registry_entries st" "ProtocolId y = protocolId"
    using find_proto_SomeD by (auto simp: registry_entries_def)
  have "(\<exists>e \<in> registry_entries st. ProtocolId e = protocolId \<and> Height e \<le> height)
          \<longleftrightarrow> Height y \<le> height"
    using y assms(1) unfolding unique_ids_def by metis
  with Some assms(2,3) show ?thesis
    by (simp add: Contains_h_def GetNftProtoIndex_def Height_def)
next
  case None
  note miss = this
  show ?thesis
  proof (cases "ReadNftProtoIndex (platformDb st) protocolId")
    case None
    have "\<not> (\<exists>e \<in> registry_entries st. ProtocolId e = protocolId \<and> Height e \<le> height)"
      using miss None find_proto_None_iff
      by (fastforce simp: registry_entries_def ReadNftProtoIndex_def)
    with miss None assms(2,3) show ?thesis
      by (simp add: Contains_h_def GetNftProtoIndex_def GetNftProtoIndexFromDb_miss)
  next
    case (Some y)
    then have y: "y \<in> registry_entries st" "ProtocolId y = protocolId"
      using find_proto_SomeD by (auto simp: registry_entries_def ReadNftProtoIndex_def)
    have "(\<exists>e \<in> registry_entries st. ProtocolId e = protocolId \<and> Height e \<le> height)
            \<longleftrightarrow> Height y \<le> height"
      using y assms(1) unfolding unique_ids_def by metis
    with miss Some assms(2,3) show ?thesis
      by (simp add: Contains_h_def GetNftProtoIndex_def GetNftProtoIndexFromDb_miss Height_def)
  qed
qed

text \<open>
  Protocol \<open>7\<close>, persisted at height \<open>3\<close> and not cached, as of height \<open>5\<close> and as
  of height \<open>2\<close>.
\<close>

theorem C7_contains_by_height_witness:
  "unique_ids uncached7
   \<and> (7 :: uint64) \<noteq> UNKNOWN_TOKEN_PROTOCOL
   \<and> (0 :: int) \<le> 5
   \<and> (\<exists>st'. Contains_h uncached7 7 5 = Inr (True, st'))
   \<and> (\<exists>st'. Contains_h uncached7 7 2 = Inr (False, st'))"
proof -
  have 1: "unique_ids uncached7"
    by (simp add: unique_ids_def registry_entries_def uncached7_def)
  have 2: "(7 :: uint64) \<noteq> UNKNOWN_TOKEN_PROTOCOL"
    by (simp add: UNKNOWN_TOKEN_PROTOCOL_def)
  have 3: "(0 :: int) \<le> 5"
    by simp
  have 6: "(0 :: int) \<le> 2"
    by simp
  have yes: "(\<exists>e \<in> registry_entries uncached7. ProtocolId e = 7 \<and> Height e \<le> 5) = True"
    by (simp add: registry_entries_def uncached7_def mk_index_def ProtocolId_def Height_def)
  have no: "(\<exists>e \<in> registry_entries uncached7. ProtocolId e = 7 \<and> Height e \<le> 2) = False"
    by (simp add: registry_entries_def uncached7_def mk_index_def ProtocolId_def Height_def)
  have a: "\<exists>st'. Contains_h uncached7 7 5 = Inr (True, st')"
    using C7_contains_by_height [OF 1 2 3] unfolding yes .
  have b: "\<exists>st'. Contains_h uncached7 7 2 = Inr (False, st')"
    using C7_contains_by_height [OF 1 2 6] unfolding no .
  show ?thesis using 1 2 3 a b by blast
qed

text \<open>
  C10. A protocol id, other than the reserved one, that the index does not hold. If
  the store has an entry under it, \<^verbatim>\<open>GetNftProtoIndex\<close>, both \<^verbatim>\<open>Contains\<close> (for a
  height that passes their assertion) and \<^verbatim>\<open>OwnerOf\<close> return from that entry and
  leave a state that differs from the one before in the index only, which has gained
  exactly that entry: counter, tip height, tip hash and store are the same. If the store
  has none, \<^verbatim>\<open>GetNftProtoIndex\<close> returns the null entry and \<^verbatim>\<open>Contains\<close> false with
  the state unchanged, and \<^verbatim>\<open>OwnerOf\<close> dereferences the null descriptor in the
  unchanged state.
\<close>

theorem C10_query_frame:
  assumes "protocolId \<noteq> UNKNOWN_TOKEN_PROTOCOL"
    and "find_proto (m_nftProtoIndexSet st) protocolId = None"
  shows "case ReadNftProtoIndex (platformDb st) protocolId of
           Some e \<Rightarrow>
             (\<exists>s'. set s' = insert e (set (m_nftProtoIndexSet st))
                \<and> find_proto s' protocolId = Some e
                \<and> GetNftProtoIndex st protocolId = Inr (Some e, st\<lparr>m_nftProtoIndexSet := s'\<rparr>)
                \<and> (0 \<le> height \<longrightarrow>
                      Contains_h st protocolId height
                        = Inr (Height e \<le> height, st\<lparr>m_nftProtoIndexSet := s'\<rparr>))
                \<and> (0 \<le> m_tipHeight st \<longrightarrow>
                      Contains st protocolId
                        = Inr (Height e \<le> m_tipHeight st, st\<lparr>m_nftProtoIndexSet := s'\<rparr>))
                \<and> OwnerOf st protocolId
                    = Inr (tokenProtocolOwnerId (NftProtoPtr e), st\<lparr>m_nftProtoIndexSet := s'\<rparr>))
         | None \<Rightarrow>
             GetNftProtoIndex st protocolId = Inr (None, st)
             \<and> (0 \<le> height \<longrightarrow> Contains_h st protocolId height = Inr (False, st))
             \<and> (0 \<le> m_tipHeight st \<longrightarrow> Contains st protocolId = Inr (False, st))
             \<and> OwnerOf st protocolId = Inl (NullDereference, st)"
proof (cases "ReadNftProtoIndex (platformDb st) protocolId")
  case None
  with assms show ?thesis
    by (simp add: Contains_def Contains_h_def GetNftProtoIndex_def OwnerOf_def
        GetNftProtoIndexFromDb_miss)
next
  case (Some e)
  then have id: "ProtocolId e = protocolId"
    using find_proto_SomeD by (auto simp: ReadNftProtoIndex_def)
  let ?s' = "insert_by_height e (m_nftProtoIndexSet st)"
  have "set ?s' = insert e (set (m_nftProtoIndexSet st))"
    by (rule set_insert_by_height)
  moreover have "find_proto ?s' protocolId = Some e"
    using assms(2) id by (simp add: find_proto_insert_by_height)
  moreover have "GetNftProtoIndex st protocolId = Inr (Some e, st\<lparr>m_nftProtoIndexSet := ?s'\<rparr>)"
    using assms Some by (simp add: GetNftProtoIndex_def GetNftProtoIndexFromDb_miss)
  moreover have "Contains_h st protocolId h
                   = Inr (Height e \<le> h, st\<lparr>m_nftProtoIndexSet := ?s'\<rparr>)" if "0 \<le> h" for h
    using assms that Some
    by (simp add: Contains_h_def GetNftProtoIndex_def GetNftProtoIndexFromDb_miss Height_def)
  moreover have "Contains st protocolId = Contains_h st protocolId (m_tipHeight st)"
    using assms(1) by (simp add: Contains_def)
  moreover have "OwnerOf st protocolId
                   = Inr (tokenProtocolOwnerId (NftProtoPtr e), st\<lparr>m_nftProtoIndexSet := ?s'\<rparr>)"
    using assms Some by (simp add: OwnerOf_def GetNftProtoIndexFromDb_miss)
  ultimately show ?thesis
    using Some by auto
qed

text \<open>
  Protocol \<open>7\<close>, persisted and not cached, and protocol \<open>8\<close>, unknown.
\<close>

theorem C10_query_frame_witness:
  "(7 :: uint64) \<noteq> UNKNOWN_TOKEN_PROTOCOL
   \<and> find_proto (m_nftProtoIndexSet uncached7) 7 = None
   \<and> (0 :: int) \<le> 2
   \<and> 0 \<le> m_tipHeight uncached7
   \<and> (\<exists>s'. set s' = {mk_index 7 3}
         \<and> GetNftProtoIndex uncached7 7
             = Inr (Some (mk_index 7 3), uncached7\<lparr>m_nftProtoIndexSet := s'\<rparr>)
         \<and> Contains_h uncached7 7 2 = Inr (False, uncached7\<lparr>m_nftProtoIndexSet := s'\<rparr>)
         \<and> Contains uncached7 7 = Inr (True, uncached7\<lparr>m_nftProtoIndexSet := s'\<rparr>)
         \<and> OwnerOf uncached7 7 = Inr (1, uncached7\<lparr>m_nftProtoIndexSet := s'\<rparr>))
   \<and> (8 :: uint64) \<noteq> UNKNOWN_TOKEN_PROTOCOL
   \<and> find_proto (m_nftProtoIndexSet uncached7) 8 = None
   \<and> GetNftProtoIndex uncached7 8 = Inr (None, uncached7)
   \<and> Contains_h uncached7 8 2 = Inr (False, uncached7)
   \<and> Contains uncached7 8 = Inr (False, uncached7)
   \<and> OwnerOf uncached7 8 = Inl (NullDereference, uncached7)"
proof -
  have 1: "(7 :: uint64) \<noteq> UNKNOWN_TOKEN_PROTOCOL" and 2: "(8 :: uint64) \<noteq> UNKNOWN_TOKEN_PROTOCOL"
    by (simp_all add: UNKNOWN_TOKEN_PROTOCOL_def)
  have 3: "find_proto (m_nftProtoIndexSet uncached7) 7 = None"
    and 4: "find_proto (m_nftProtoIndexSet uncached7) 8 = None"
    by (simp_all add: uncached7_def find_proto_def)
  have 5: "(0 :: int) \<le> 2"
    by simp
  have 6: "0 \<le> m_tipHeight uncached7"
    by (simp add: uncached7_def)
  have hit: "ReadNftProtoIndex (platformDb uncached7) 7 = Some (mk_index 7 3)"
    by (simp add: ReadNftProtoIndex_def uncached7_def find_proto_def mk_index_def ProtocolId_def)
  have miss: "ReadNftProtoIndex (platformDb uncached7) 8 = None"
    by (simp add: ReadNftProtoIndex_def uncached7_def find_proto_def mk_index_def ProtocolId_def)
  have vals: "\<not> Height (mk_index 7 3) \<le> 2" "Height (mk_index 7 3) \<le> m_tipHeight uncached7"
    "tokenProtocolOwnerId (NftProtoPtr (mk_index 7 3)) = 1"
    "set (m_nftProtoIndexSet uncached7) = {}"
    by (simp_all add: mk_index_def Height_def uncached7_def)
  have a: "\<exists>s'. set s' = {mk_index 7 3}
         \<and> GetNftProtoIndex uncached7 7
             = Inr (Some (mk_index 7 3), uncached7\<lparr>m_nftProtoIndexSet := s'\<rparr>)
         \<and> Contains_h uncached7 7 2 = Inr (False, uncached7\<lparr>m_nftProtoIndexSet := s'\<rparr>)
         \<and> Contains uncached7 7 = Inr (True, uncached7\<lparr>m_nftProtoIndexSet := s'\<rparr>)
         \<and> OwnerOf uncached7 7 = Inr (1, uncached7\<lparr>m_nftProtoIndexSet := s'\<rparr>)"
    using C10_query_frame [OF 1 3, of 2] 5 6 vals by (simp add: hit) blast
  have b: "GetNftProtoIndex uncached7 8 = Inr (None, uncached7)
           \<and> Contains_h uncached7 8 2 = Inr (False, uncached7)
           \<and> Contains uncached7 8 = Inr (False, uncached7)
           \<and> OwnerOf uncached7 8 = Inl (NullDereference, uncached7)"
    using C10_query_frame [OF 2 4, of 2] 5 6 by (simp add: miss)
  show ?thesis using 1 2 3 4 5 6 a b by blast
qed

section \<open>The counter\<close>

text \<open>
  Every call keeps the bookkeeping \<open>counted\<close>; the queries find nothing in the
  store that the index does not hold, so they change nothing.
\<close>

lemma counted_miss:
  assumes "counted st N M" and "find_proto (m_nftProtoIndexSet st) p = None"
  shows "ReadNftProtoIndex (platformDb st) p = None"
proof -
  have "p \<notin> ProtocolId ` set (m_nftProtoIndexSet st)"
    using assms(2) by (simp add: find_proto_None_iff)
  with assms(1) have "p \<notin> ProtocolId ` set (dbNftProtoIndexes (platformDb st))"
    unfolding counted_def by blast
  then show ?thesis by (simp add: ReadNftProtoIndex_def find_proto_None_iff)
qed

lemma counted_GetNftProtoIndex:
  assumes "counted st N M" and "GetNftProtoIndex st p = Inr (r, st')"
  shows "st' = st"
proof (cases "find_proto (m_nftProtoIndexSet st) p")
  case None
  with assms counted_miss [OF assms(1) None] show ?thesis
    by (auto simp: GetNftProtoIndex_def GetNftProtoIndexFromDb_miss split: if_splits)
next
  case (Some e)
  with assms show ?thesis
    by (auto simp: GetNftProtoIndex_def split: if_splits)
qed

lemma counted_Contains_h:
  assumes "counted st N M" and "Contains_h st p h = Inr (r, st')"
  shows "st' = st"
proof (cases "GetNftProtoIndex st p")
  case (Inl f)
  with assms show ?thesis by (auto simp: Contains_h_def split: if_splits)
next
  case (Inr x)
  obtain i st'' where x: "x = (i, st'')" by (cases x)
  with Inr assms(1) have "st'' = st" using counted_GetNftProtoIndex by blast
  with Inr x assms(2) show ?thesis
    by (auto simp: Contains_h_def split: if_splits option.splits)
qed

lemma counted_Contains:
  assumes "counted st N M" and "Contains st p = Inr (r, st')"
  shows "st' = st"
  using assms counted_Contains_h [of st N M p "m_tipHeight st" r st']
  by (auto simp: Contains_def split: if_splits)

lemma counted_OwnerOf:
  assumes "counted st N M" and "OwnerOf st p = Inr (r, st')"
  shows "st' = st"
proof (cases "find_proto (m_nftProtoIndexSet st) p")
  case None
  with assms counted_miss [OF assms(1) None] show ?thesis
    by (auto simp: OwnerOf_def GetNftProtoIndexFromDb_miss split: if_splits)
next
  case (Some e)
  with assms show ?thesis
    by (auto simp: OwnerOf_def split: if_splits)
qed

lemma counted_UpdateBlockTip:
  assumes "counted st N M" and "UpdateBlockTip st pindex = Inr (r, st')"
  shows "counted st' N M"
  using assms by (auto simp: UpdateBlockTip_def counted_def image_subset_iff split: option.splits)

lemma counted_AddNftProto:
  assumes "counted st N M" and "AddNftProto st nftProto tx pindex = Inr (b, st')"
  shows "counted st' (if b then Suc N else N) M"
proof (cases pindex)
  case None
  with assms show ?thesis by (auto simp: AddNftProto_def split: if_splits)
next
  case (Some bi)
  let ?x = "\<lparr>BlockIndex = bi, RegTxHash = GetHash tx, NftProtoPtr = nftProto\<rparr>"
  show ?thesis
  proof (cases "find_proto (m_nftProtoIndexSet st) (ProtocolId ?x)")
    case None
    with assms Some have b: "b"
      and st': "st' = st\<lparr>m_nftProtoIndexSet := insert_by_height ?x (m_nftProtoIndexSet st),
                         m_totalProtocolsCount := m_totalProtocolsCount st + 1,
                         platformDb := WriteTotalProtocolCount
                            (WriteNftProtoDiskIndex (platformDb st) ?x)
                            (m_totalProtocolsCount st + 1)\<rparr>"
      by (auto simp: AddNftProto_def emplace_def Let_def split: if_splits)
    show ?thesis
      using assms(1) b unfolding st' counted_def
      by (auto simp: length_insert_by_height set_insert_by_height WriteTotalProtocolCount_def
          WriteNftProtoDiskIndex_def Suc_diff_le)
  next
    case (Some y)
    with assms \<open>pindex = Some bi\<close> have "\<not> b" "st' = st"
      by (auto simp: AddNftProto_def emplace_def Let_def split: if_splits)
    with assms(1) show ?thesis by simp
  qed
qed

lemma counted_Delete_h:
  assumes "counted st N M" and "Delete_h st p h = Inr (b, st')"
  shows "counted st' N (if b then Suc M else M)"
proof (cases "find_proto (m_nftProtoIndexSet st) p")
  case None
  with assms have "\<not> b" "st' = st"
    by (auto simp: Delete_h_def split: if_splits)
  with assms(1) show ?thesis by simp
next
  case (Some e)
  show ?thesis
  proof (cases b)
    case False
    with assms Some have "st' = st"
      by (auto simp: Delete_h_def Let_def split: if_splits)
    with assms(1) False show ?thesis by simp
  next
    case True
    with assms Some have st': "st' = st\<lparr>m_nftProtoIndexSet := erase_proto (m_nftProtoIndexSet st) p,
                         m_totalProtocolsCount := m_totalProtocolsCount st - 1,
                         platformDb := WriteTotalProtocolCount
                            (EraseNftProtoDiskIndex (platformDb st) p)
                            (m_totalProtocolsCount st - 1)\<rparr>"
      by (auto simp: Delete_h_def Let_def split: if_splits)
    have len: "Suc (length (erase_proto (m_nftProtoIndexSet st) p)) = length (m_nftProtoIndexSet st)"
      by (rule length_erase_proto [OF Some])
    have ids: "ProtocolId ` set (m_nftProtoIndexSet st) - {p}
                 \<subseteq> ProtocolId ` set (erase_proto (m_nftProtoIndexSet st) p)"
      by (rule ids_erase_proto)
    show ?thesis
    proof -
      have "ProtocolId ` set (dbNftProtoIndexes (platformDb st')) \<subseteq>
              ProtocolId ` set (m_nftProtoIndexSet st')"
      proof -
        have "ProtocolId ` set (dbNftProtoIndexes (platformDb st)) - {p}
                \<subseteq> ProtocolId ` set (erase_proto (m_nftProtoIndexSet st) p)"
          using assms(1) ids unfolding counted_def by blast
        then show ?thesis
          unfolding st' by (auto simp: WriteTotalProtocolCount_def EraseNftProtoDiskIndex_def)
      qed
      moreover have "Suc M \<le> N \<and> length (m_nftProtoIndexSet st') = N - Suc M
                      \<and> m_totalProtocolsCount st' = int N - int (Suc M)
                      \<and> dbTotalProtocolCount (platformDb st') = int N - int (Suc M)"
        using assms(1) len unfolding st' counted_def
        by (auto simp: WriteTotalProtocolCount_def)
      ultimately show ?thesis
        using True unfolding counted_def by simp
    qed
  qed
qed

lemma counted_perform:
  assumes "counted st N M" and "perform c st = Inr (out, st')"
  shows "counted st' (if out = AddSucceeded then Suc N else N)
                     (if out = DeleteSucceeded then Suc M else M)"
proof (cases c)
  case (Call_AddNftProto nftProto tx pindex)
  with assms(2) obtain b where "AddNftProto st nftProto tx pindex = Inr (b, st')"
    and "out = (if b then AddSucceeded else Other)"
    by (auto split: sum.splits)
  with counted_AddNftProto [OF assms(1)] show ?thesis by fastforce
next
  case (Call_Contains p)
  with assms(2) obtain b where "Contains st p = Inr (b, st')" and "out = Other"
    by (auto split: sum.splits)
  with counted_Contains [OF assms(1)] assms(1) show ?thesis by fastforce
next
  case (Call_Contains_h p h)
  with assms(2) obtain b where "Contains_h st p h = Inr (b, st')" and "out = Other"
    by (auto split: sum.splits)
  with counted_Contains_h [OF assms(1)] assms(1) show ?thesis by fastforce
next
  case (Call_GetNftProtoIndex p)
  with assms(2) obtain r where "GetNftProtoIndex st p = Inr (r, st')" and "out = Other"
    by (auto split: sum.splits)
  with counted_GetNftProtoIndex [OF assms(1)] assms(1) show ?thesis by fastforce
next
  case (Call_OwnerOf p)
  with assms(2) obtain r where "OwnerOf st p = Inr (r, st')" and "out = Other"
    by (auto split: sum.splits)
  with counted_OwnerOf [OF assms(1)] assms(1) show ?thesis by fastforce
next
  case (Call_ProcessNftProtoIndexRangeByHeight handler height count startFrom)
  with assms(2) obtain r where
    "ProcessNftProtoIndexRangeByHeight handler st height count startFrom = Inr (r, st')"
    and "out = Other"
    by (auto split: sum.splits)
  with ProcessNftProtoIndexRangeByHeight_const assms(1) show ?thesis by fastforce
next
  case (Call_Delete p)
  with assms(2) obtain b where "Delete_h st p (m_tipHeight st) = Inr (b, st')"
    and "out = (if b then DeleteSucceeded else Other)"
    by (auto simp: Delete_def split: sum.splits)
  with counted_Delete_h [OF assms(1)] show ?thesis by fastforce
next
  case (Call_Delete_h p h)
  with assms(2) obtain b where "Delete_h st p h = Inr (b, st')"
    and "out = (if b then DeleteSucceeded else Other)"
    by (auto split: sum.splits)
  with counted_Delete_h [OF assms(1)] show ?thesis by fastforce
next
  case (Call_UpdateBlockTip pindex)
  with assms(2) obtain u where "UpdateBlockTip st pindex = Inr (u, st')" and "out = Other"
    by (auto split: sum.splits)
  with counted_UpdateBlockTip [OF assms(1)] show ?thesis by fastforce
qed

lemma counted_run:
  "counted st N M \<Longrightarrow> run cs st N M = Inr (st', N', M') \<Longrightarrow> counted st' N' M'"
proof (induction cs arbitrary: st N M)
  case Nil
  then show ?case by simp
next
  case (Cons c cs)
  from Cons.prems(2) obtain out st1 where p: "perform c st = Inr (out, st1)"
    and r: "run cs st1 (if out = AddSucceeded then Suc N else N)
                       (if out = DeleteSucceeded then Suc M else M) = Inr (st', N', M')"
    by (auto split: sum.splits)
  show ?case
    by (rule Cons.IH [OF counted_perform [OF Cons.prems(1) p] r])
qed

lemma counted_ctor_empty_db:
  "counted (fst (NftProtocolsManager_ctor tipHeight0 tipBlockHash0 empty_db)) 0 0"
  by (simp add: NftProtocolsManager_ctor_def empty_db_def counted_def ReadTotalProtocolCount_def)

lemma index_ok_perform:
  assumes "index_ok (m_nftProtoIndexSet st)" and "perform c st = Inr (out, st')"
  shows "index_ok (m_nftProtoIndexSet st')"
proof (cases c)
  case (Call_AddNftProto nftProto tx pindex)
  with assms(2) obtain b where a: "AddNftProto st nftProto tx pindex = Inr (b, st')"
    by (auto split: sum.splits)
  then obtain bi where bi: "pindex = Some bi"
    by (cases pindex) (auto simp: AddNftProto_def split: if_splits)
  let ?x = "\<lparr>BlockIndex = bi, RegTxHash = GetHash tx, NftProtoPtr = nftProto\<rparr>"
  obtain s' it second where e: "emplace (m_nftProtoIndexSet st) ?x = (s', it, second)"
    by (cases "emplace (m_nftProtoIndexSet st) ?x") auto
  with a bi have "m_nftProtoIndexSet st' = s'"
    by (auto simp: AddNftProto_def Let_def split: if_splits)
  with index_ok_emplace [OF assms(1) e] show ?thesis by simp
next
  case (Call_Contains p)
  with assms(2) obtain b where "Contains_h st p (m_tipHeight st) = Inr (b, st')"
    by (auto simp: Contains_def split: sum.splits if_splits)
  then obtain r where "GetNftProtoIndex st p = Inr (r, st')"
    by (auto simp: Contains_h_def split: sum.splits if_splits option.splits)
  with assms(1) index_ok_GetNftProtoIndexFromDb show ?thesis
    by (fastforce simp: GetNftProtoIndex_def split: if_splits option.splits)
next
  case (Call_Contains_h p h)
  with assms(2) obtain b where "Contains_h st p h = Inr (b, st')"
    by (auto split: sum.splits)
  then obtain r where "GetNftProtoIndex st p = Inr (r, st')"
    by (auto simp: Contains_h_def split: sum.splits if_splits option.splits)
  with assms(1) index_ok_GetNftProtoIndexFromDb show ?thesis
    by (fastforce simp: GetNftProtoIndex_def split: if_splits option.splits)
next
  case (Call_GetNftProtoIndex p)
  with assms(2) obtain r where "GetNftProtoIndex st p = Inr (r, st')"
    by (auto split: sum.splits)
  with assms(1) index_ok_GetNftProtoIndexFromDb show ?thesis
    by (fastforce simp: GetNftProtoIndex_def split: if_splits option.splits)
next
  case (Call_OwnerOf p)
  with assms(2) obtain r where o: "OwnerOf st p = Inr (r, st')"
    by (auto split: sum.splits)
  show ?thesis
  proof (cases "find_proto (m_nftProtoIndexSet st) p")
    case None
    with o obtain e where "GetNftProtoIndexFromDb st p = Inr (e, st')"
      by (auto simp: OwnerOf_def split: if_splits sum.splits option.splits)
    with assms(1) index_ok_GetNftProtoIndexFromDb show ?thesis by blast
  next
    case (Some e)
    with o assms(1) show ?thesis by (auto simp: OwnerOf_def split: if_splits)
  qed
next
  case (Call_ProcessNftProtoIndexRangeByHeight handler height count startFrom)
  with assms(2) obtain r where
    "ProcessNftProtoIndexRangeByHeight handler st height count startFrom = Inr (r, st')"
    by (auto split: sum.splits)
  with ProcessNftProtoIndexRangeByHeight_const assms(1) show ?thesis by fastforce
next
  case (Call_Delete p)
  with assms(2) obtain b where "Delete_h st p (m_tipHeight st) = Inr (b, st')"
    by (auto simp: Delete_def split: sum.splits)
  with assms(1) index_ok_erase_proto [OF assms(1), of p] show ?thesis
    by (auto simp: Delete_h_def Let_def split: if_splits option.splits)
next
  case (Call_Delete_h p h)
  with assms(2) obtain b where "Delete_h st p h = Inr (b, st')"
    by (auto split: sum.splits)
  with assms(1) index_ok_erase_proto [OF assms(1), of p] show ?thesis
    by (auto simp: Delete_h_def Let_def split: if_splits option.splits)
next
  case (Call_UpdateBlockTip pindex)
  with assms show ?thesis
    by (auto simp: UpdateBlockTip_def split: option.splits)
qed

text \<open>
  C8. After any sequence of calls on a registry constructed over the empty store,
  with \<open>N\<close> successful additions and \<open>M\<close> successful deletions among them, the
  counter is \<open>N - M\<close>, it is the number of entries of the index, and the persisted
  counter equals it.
\<close>

theorem C8_counter_is_adds_minus_deletes:
  assumes "run cs (fst (NftProtocolsManager_ctor tipHeight0 tipBlockHash0 empty_db)) 0 0
             = Inr (st, N, M)"
  shows "M \<le> N \<and> m_totalProtocolsCount st = int N - int M
         \<and> m_totalProtocolsCount st = int (length (m_nftProtoIndexSet st))
         \<and> ReadTotalProtocolCount (platformDb st) = m_totalProtocolsCount st"
  using counted_run [OF counted_ctor_empty_db assms]
  by (auto simp: counted_def ReadTotalProtocolCount_def)

text \<open>
  Two registrations, a rejected duplicate, a query, a deletion refused for its height
  and a deletion that succeeds.
\<close>

theorem C8_counter_witness:
  "\<exists>st. run [Call_AddNftProto (mk_proto 1) \<lparr>GetHash = 9\<rparr> (Some (block_at 1)),
             Call_AddNftProto (mk_proto 2) \<lparr>GetHash = 9\<rparr> (Some (block_at 2)),
             Call_AddNftProto (mk_proto 1) \<lparr>GetHash = 9\<rparr> (Some (block_at 3)),
             Call_Contains_h 2 5,
             Call_Delete_h 2 1,
             Call_Delete_h 1 4]
            (fst (NftProtocolsManager_ctor 0 0 empty_db)) 0 0 = Inr (st, 2, 1)
        \<and> m_totalProtocolsCount st = 1
        \<and> length (m_nftProtoIndexSet st) = 1"
proof -
  let ?cs = "[Call_AddNftProto (mk_proto 1) \<lparr>GetHash = 9\<rparr> (Some (block_at 1)),
             Call_AddNftProto (mk_proto 2) \<lparr>GetHash = 9\<rparr> (Some (block_at 2)),
             Call_AddNftProto (mk_proto 1) \<lparr>GetHash = 9\<rparr> (Some (block_at 3)),
             Call_Contains_h 2 5,
             Call_Delete_h 2 1,
             Call_Delete_h 1 4]"
  have "\<exists>st. run ?cs (fst (NftProtocolsManager_ctor 0 0 (empty_db :: unit PlatformDb))) 0 0
          = Inr (st, 2, 1)"
    by (simp add: NftProtocolsManager_ctor_def empty_db_def AddNftProto_def Contains_h_def
        Delete_h_def GetNftProtoIndex_def emplace_def find_proto_def mk_proto_def block_at_def
        ProtocolId_def Height_def IsNull_def UNKNOWN_TOKEN_PROTOCOL_def ReadTotalProtocolCount_def
        WriteNftProtoDiskIndex_def WriteTotalProtocolCount_def EraseNftProtoDiskIndex_def Let_def)
  then obtain st :: "unit NftProtocolsManager" where
    r: "run ?cs (fst (NftProtocolsManager_ctor 0 0 empty_db)) 0 0 = Inr (st, 2, 1)"
    by blast
  from C8_counter_is_adds_minus_deletes [OF r]
  have "m_totalProtocolsCount st = 1" "int (length (m_nftProtoIndexSet st)) = 1"
    by simp_all
  with r show ?thesis by auto
qed

section \<open>Well-formed registries stay well-formed\<close>

text \<open>
  The constructor on a store with distinct protocol ids yields a registry in which a
  protocol id names at most one entry, and every call keeps that property, as it keeps
  the invariant of the container (\<open>index_ok_ctor\<close>, \<open>index_ok_perform\<close>).
\<close>

lemma unique_ids_subset:
  "unique_ids st \<Longrightarrow> registry_entries st' \<subseteq> registry_entries st \<Longrightarrow> unique_ids st'"
  unfolding unique_ids_def by blast

lemma registry_entries_GetNftProtoIndexFromDb:
  assumes "GetNftProtoIndexFromDb st p = Inr (r, st')"
  shows "registry_entries st' \<subseteq> registry_entries st"
proof (cases "ReadNftProtoIndex (platformDb st) p")
  case None
  with assms show ?thesis by (auto simp: GetNftProtoIndexFromDb_def)
next
  case (Some e)
  then have "e \<in> set (dbNftProtoIndexes (platformDb st))"
    using find_proto_SomeD by (auto simp: ReadNftProtoIndex_def)
  with assms Some show ?thesis
    by (auto simp: GetNftProtoIndexFromDb_def emplace_def registry_entries_def
        set_insert_by_height split: option.splits if_splits)
qed

lemma registry_entries_GetNftProtoIndex:
  assumes "GetNftProtoIndex st p = Inr (r, st')"
  shows "registry_entries st' \<subseteq> registry_entries st"
  using assms registry_entries_GetNftProtoIndexFromDb [of st p r st']
  by (auto simp: GetNftProtoIndex_def split: if_splits option.splits)

lemma registry_entries_Delete_h:
  assumes "Delete_h st p h = Inr (b, st')"
  shows "registry_entries st' \<subseteq> registry_entries st"
  using assms set_erase_proto_subset [of "m_nftProtoIndexSet st" p]
  by (auto simp: Delete_h_def Let_def registry_entries_def EraseNftProtoDiskIndex_def
      WriteTotalProtocolCount_def split: if_splits option.splits)

lemma unique_ids_AddNftProto:
  assumes "unique_ids st" and "AddNftProto st nftProto tx pindex = Inr (b, st')"
  shows "unique_ids st'"
proof (cases pindex)
  case None
  with assms show ?thesis by (auto simp: AddNftProto_def split: if_splits)
next
  case (Some bi)
  let ?x = "\<lparr>BlockIndex = bi, RegTxHash = GetHash tx, NftProtoPtr = nftProto\<rparr>"
  show ?thesis
  proof (cases "find_proto (m_nftProtoIndexSet st) (ProtocolId ?x)")
    case None
    then have fresh: "\<forall>y \<in> set (m_nftProtoIndexSet st). ProtocolId y \<noteq> ProtocolId ?x"
      using None unfolding find_proto_None_iff by (metis imageI)
    from None assms(2) Some have
      "registry_entries st' = insert ?x (set (m_nftProtoIndexSet st)
          \<union> {y \<in> set (dbNftProtoIndexes (platformDb st)). ProtocolId y \<noteq> ProtocolId ?x})"
      by (auto simp: AddNftProto_def emplace_def Let_def registry_entries_def
          set_insert_by_height WriteNftProtoDiskIndex_def WriteTotalProtocolCount_def
          split: if_splits)
    with assms(1) fresh show ?thesis
      unfolding unique_ids_def registry_entries_def by auto
  next
    case (Some y)
    with assms \<open>pindex = Some bi\<close> have "st' = st"
      by (auto simp: AddNftProto_def emplace_def Let_def split: if_splits)
    with assms(1) show ?thesis by simp
  qed
qed

lemma unique_ids_perform:
  assumes "unique_ids st" and "perform c st = Inr (out, st')"
  shows "unique_ids st'"
proof (cases c)
  case (Call_AddNftProto nftProto tx pindex)
  with assms(2) obtain b where "AddNftProto st nftProto tx pindex = Inr (b, st')"
    by (auto split: sum.splits)
  with unique_ids_AddNftProto [OF assms(1)] show ?thesis by blast
next
  case (Call_Contains p)
  with assms(2) obtain b where "Contains_h st p (m_tipHeight st) = Inr (b, st')"
    by (auto simp: Contains_def split: sum.splits if_splits)
  then obtain r where "GetNftProtoIndex st p = Inr (r, st')"
    by (auto simp: Contains_h_def split: sum.splits if_splits option.splits)
  with assms(1) unique_ids_subset registry_entries_GetNftProtoIndex show ?thesis by blast
next
  case (Call_Contains_h p h)
  with assms(2) obtain b where "Contains_h st p h = Inr (b, st')"
    by (auto split: sum.splits)
  then obtain r where "GetNftProtoIndex st p = Inr (r, st')"
    by (auto simp: Contains_h_def split: sum.splits if_splits option.splits)
  with assms(1) unique_ids_subset registry_entries_GetNftProtoIndex show ?thesis by blast
next
  case (Call_GetNftProtoIndex p)
  with assms(2) obtain r where "GetNftProtoIndex st p = Inr (r, st')"
    by (auto split: sum.splits)
  with assms(1) unique_ids_subset registry_entries_GetNftProtoIndex show ?thesis by blast
next
  case (Call_OwnerOf p)
  with assms(2) obtain r where o: "OwnerOf st p = Inr (r, st')"
    by (auto split: sum.splits)
  show ?thesis
  proof (cases "find_proto (m_nftProtoIndexSet st) p")
    case None
    with o obtain e where "GetNftProtoIndexFromDb st p = Inr (e, st')"
      by (auto simp: OwnerOf_def split: if_splits sum.splits option.splits)
    with assms(1) unique_ids_subset registry_entries_GetNftProtoIndexFromDb show ?thesis by blast
  next
    case (Some e)
    with o assms(1) show ?thesis by (auto simp: OwnerOf_def split: if_splits)
  qed
next
  case (Call_ProcessNftProtoIndexRangeByHeight handler height count startFrom)
  with assms(2) obtain r where
    "ProcessNftProtoIndexRangeByHeight handler st height count startFrom = Inr (r, st')"
    by (auto split: sum.splits)
  with ProcessNftProtoIndexRangeByHeight_const assms(1) show ?thesis by fastforce
next
  case (Call_Delete p)
  with assms(2) obtain b where "Delete_h st p (m_tipHeight st) = Inr (b, st')"
    by (auto simp: Delete_def split: sum.splits)
  with assms(1) unique_ids_subset registry_entries_Delete_h show ?thesis by blast
next
  case (Call_Delete_h p h)
  with assms(2) obtain b where "Delete_h st p h = Inr (b, st')"
    by (auto split: sum.splits)
  with assms(1) unique_ids_subset registry_entries_Delete_h show ?thesis by blast
next
  case (Call_UpdateBlockTip pindex)
  with assms show ?thesis
    by (auto simp: UpdateBlockTip_def unique_ids_def registry_entries_def split: option.splits)
qed

lemma unique_ids_ctor:
  assumes "distinct (map ProtocolId (dbNftProtoIndexes db))"
  shows "unique_ids (fst (NftProtocolsManager_ctor tipHeight0 tipBlockHash0 db))"
proof -
  let ?r = "ProcessNftProtoIndexGutsOnly ctor_handler (dbNftProtoIndexes db) []"
  have "set (fst ?r) \<subseteq> set (dbNftProtoIndexes db)"
    using scan_set [of "dbNftProtoIndexes db" "[]"] by auto
  then have "registry_entries (fst (NftProtocolsManager_ctor tipHeight0 tipBlockHash0 db))
               = set (dbNftProtoIndexes db)"
    by (auto simp: NftProtocolsManager_ctor_def registry_entries_def split: prod.splits)
  moreover have "\<forall>e \<in> set (dbNftProtoIndexes db). \<forall>e' \<in> set (dbNftProtoIndexes db).
                   ProtocolId e = ProtocolId e' \<longrightarrow> e = e'"
    using assms by (simp add: distinct_map inj_on_def)
  ultimately show ?thesis
    unfolding unique_ids_def by simp
qed

section \<open>Cache misses\<close>




text \<open>
  No sequence of calls leads to such a miss: the constructor caches every protocol id
  of the store, whatever the store holds, and every call keeps the cache complete. On
  the states a run reaches, a protocol id that the index lacks is not in the store either.
\<close>

lemma emplace_grows: "emplace s x = (s', it, second) \<Longrightarrow> set s \<subseteq> set s'"
  by (auto simp: emplace_def set_insert_by_height split: option.splits)

lemma cache_complete_miss:
  assumes "cache_complete st" and "find_proto (m_nftProtoIndexSet st) p = None"
  shows "ReadNftProtoIndex (platformDb st) p = None"
proof -
  have "p \<notin> ProtocolId ` set (m_nftProtoIndexSet st)"
    using assms(2) by (simp add: find_proto_None_iff)
  with assms(1) have "p \<notin> ProtocolId ` set (dbNftProtoIndexes (platformDb st))"
    unfolding cache_complete_def by blast
  then show ?thesis by (simp add: ReadNftProtoIndex_def find_proto_None_iff)
qed

lemma cache_complete_grow:
  assumes "cache_complete st" and "set (m_nftProtoIndexSet st) \<subseteq> set (m_nftProtoIndexSet st')"
    and "platformDb st' = platformDb st"
  shows "cache_complete st'"
  using assms unfolding cache_complete_def by (metis image_mono subset_trans)

lemma cache_complete_GetNftProtoIndexFromDb:
  assumes "cache_complete st" and "GetNftProtoIndexFromDb st p = Inr (r, st')"
  shows "cache_complete st'"
proof (cases "ReadNftProtoIndex (platformDb st) p")
  case None
  with assms show ?thesis by (auto simp: GetNftProtoIndexFromDb_def)
next
  case (Some e)
  obtain s' it second where e: "emplace (m_nftProtoIndexSet st) e = (s', it, second)"
    by (cases "emplace (m_nftProtoIndexSet st) e") auto
  with assms(2) Some have "st' = st\<lparr>m_nftProtoIndexSet := s'\<rparr>"
    by (auto simp: GetNftProtoIndexFromDb_def split: if_splits)
  with emplace_grows [OF e] show ?thesis
    by (intro cache_complete_grow [OF assms(1)]) simp_all
qed

lemma cache_complete_GetNftProtoIndex:
  assumes "cache_complete st" and "GetNftProtoIndex st p = Inr (r, st')"
  shows "cache_complete st'"
  using assms cache_complete_GetNftProtoIndexFromDb [of st p r st']
  by (auto simp: GetNftProtoIndex_def split: if_splits option.splits)

lemma cache_complete_AddNftProto:
  assumes "cache_complete st" and "AddNftProto st nftProto tx pindex = Inr (b, st')"
  shows "cache_complete st'"
proof (cases pindex)
  case None
  with assms show ?thesis by (auto simp: AddNftProto_def split: if_splits)
next
  case (Some bi)
  let ?x = "\<lparr>BlockIndex = bi, RegTxHash = GetHash tx, NftProtoPtr = nftProto\<rparr>"
  show ?thesis
  proof (cases "find_proto (m_nftProtoIndexSet st) (ProtocolId ?x)")
    case None
    with assms(2) Some have
      "set (m_nftProtoIndexSet st') = insert ?x (set (m_nftProtoIndexSet st))"
      "set (dbNftProtoIndexes (platformDb st'))
         = insert ?x {y \<in> set (dbNftProtoIndexes (platformDb st)). ProtocolId y \<noteq> ProtocolId ?x}"
      by (auto simp: AddNftProto_def emplace_def Let_def set_insert_by_height
          WriteNftProtoDiskIndex_def WriteTotalProtocolCount_def split: if_splits)
    with assms(1) show ?thesis
      unfolding cache_complete_def by auto
  next
    case (Some y)
    with assms \<open>pindex = Some bi\<close> have "st' = st"
      by (auto simp: AddNftProto_def emplace_def Let_def split: if_splits)
    with assms(1) show ?thesis by simp
  qed
qed

lemma cache_complete_Delete_h:
  assumes "cache_complete st" and "Delete_h st p h = Inr (b, st')"
  shows "cache_complete st'"
proof (cases b)
  case False
  with assms have "st' = st"
    by (auto simp: Delete_h_def Let_def split: if_splits option.splits)
  with assms(1) show ?thesis by simp
next
  case True
  with assms(2) have st': "st' = st\<lparr>m_nftProtoIndexSet := erase_proto (m_nftProtoIndexSet st) p,
                         m_totalProtocolsCount := m_totalProtocolsCount st - 1,
                         platformDb := WriteTotalProtocolCount
                            (EraseNftProtoDiskIndex (platformDb st) p)
                            (m_totalProtocolsCount st - 1)\<rparr>"
    by (auto simp: Delete_h_def Let_def split: if_splits option.splits)
  have "ProtocolId ` set (dbNftProtoIndexes (platformDb st)) - {p}
          \<subseteq> ProtocolId ` set (erase_proto (m_nftProtoIndexSet st) p)"
    using assms(1) ids_erase_proto [of "m_nftProtoIndexSet st" p]
    unfolding cache_complete_def by blast
  then show ?thesis
    unfolding st' cache_complete_def
    by (auto simp: WriteTotalProtocolCount_def EraseNftProtoDiskIndex_def)
qed

lemma cache_complete_perform:
  assumes "cache_complete st" and "perform c st = Inr (out, st')"
  shows "cache_complete st'"
proof (cases c)
  case (Call_AddNftProto nftProto tx pindex)
  with assms(2) obtain b where "AddNftProto st nftProto tx pindex = Inr (b, st')"
    by (auto split: sum.splits)
  with cache_complete_AddNftProto [OF assms(1)] show ?thesis by blast
next
  case (Call_Contains p)
  with assms(2) obtain b where "Contains_h st p (m_tipHeight st) = Inr (b, st')"
    by (auto simp: Contains_def split: sum.splits if_splits)
  then obtain r where "GetNftProtoIndex st p = Inr (r, st')"
    by (auto simp: Contains_h_def split: sum.splits if_splits option.splits)
  with cache_complete_GetNftProtoIndex [OF assms(1)] show ?thesis by blast
next
  case (Call_Contains_h p h)
  with assms(2) obtain b where "Contains_h st p h = Inr (b, st')"
    by (auto split: sum.splits)
  then obtain r where "GetNftProtoIndex st p = Inr (r, st')"
    by (auto simp: Contains_h_def split: sum.splits if_splits option.splits)
  with cache_complete_GetNftProtoIndex [OF assms(1)] show ?thesis by blast
next
  case (Call_GetNftProtoIndex p)
  with assms(2) obtain r where "GetNftProtoIndex st p = Inr (r, st')"
    by (auto split: sum.splits)
  with cache_complete_GetNftProtoIndex [OF assms(1)] show ?thesis by blast
next
  case (Call_OwnerOf p)
  with assms(2) obtain r where o: "OwnerOf st p = Inr (r, st')"
    by (auto split: sum.splits)
  show ?thesis
  proof (cases "find_proto (m_nftProtoIndexSet st) p")
    case None
    with o obtain e where "GetNftProtoIndexFromDb st p = Inr (e, st')"
      by (auto simp: OwnerOf_def split: if_splits sum.splits option.splits)
    with cache_complete_GetNftProtoIndexFromDb [OF assms(1)] show ?thesis by blast
  next
    case (Some e)
    with o assms(1) show ?thesis by (auto simp: OwnerOf_def split: if_splits)
  qed
next
  case (Call_ProcessNftProtoIndexRangeByHeight handler height count startFrom)
  with assms(2) obtain r where
    "ProcessNftProtoIndexRangeByHeight handler st height count startFrom = Inr (r, st')"
    by (auto split: sum.splits)
  with ProcessNftProtoIndexRangeByHeight_const assms(1) show ?thesis by fastforce
next
  case (Call_Delete p)
  with assms(2) obtain b where "Delete_h st p (m_tipHeight st) = Inr (b, st')"
    by (auto simp: Delete_def split: sum.splits)
  with cache_complete_Delete_h [OF assms(1)] show ?thesis by blast
next
  case (Call_Delete_h p h)
  with assms(2) obtain b where "Delete_h st p h = Inr (b, st')"
    by (auto split: sum.splits)
  with cache_complete_Delete_h [OF assms(1)] show ?thesis by blast
next
  case (Call_UpdateBlockTip pindex)
  with assms show ?thesis
    by (auto simp: UpdateBlockTip_def cache_complete_def image_subset_iff split: option.splits)
qed

lemma cache_complete_run:
  "cache_complete st \<Longrightarrow> run cs st N M = Inr (st', N', M') \<Longrightarrow> cache_complete st'"
proof (induction cs arbitrary: st N M)
  case Nil
  then show ?case by simp
next
  case (Cons c cs)
  from Cons.prems(2) obtain out st1 where p: "perform c st = Inr (out, st1)"
    and r: "run cs st1 (if out = AddSucceeded then Suc N else N)
                       (if out = DeleteSucceeded then Suc M else M) = Inr (st', N', M')"
    by (auto split: sum.splits)
  show ?case
    by (rule Cons.IH [OF cache_complete_perform [OF Cons.prems(1) p] r])
qed

lemma cache_complete_ctor:
  "cache_complete (fst (NftProtocolsManager_ctor tipHeight0 tipBlockHash0 db))"
proof -
  let ?r = "ProcessNftProtoIndexGutsOnly ctor_handler (dbNftProtoIndexes db) []"
  have "p \<in> ProtocolId ` set (fst ?r)" if "p \<in> ProtocolId ` set (dbNftProtoIndexes db)" for p
  proof -
    from that have "find_proto (dbNftProtoIndexes db) p \<noteq> None"
      by (simp add: find_proto_None_iff)
    then have "find_proto (fst ?r) p \<noteq> None"
      by (simp add: scan_find find_proto_Nil)
    then show ?thesis by (simp add: find_proto_None_iff)
  qed
  then show ?thesis
    by (auto simp: cache_complete_def NftProtocolsManager_ctor_def split: prod.splits)
qed

lemma reachable_miss_is_store_miss:
  assumes "run cs (fst (NftProtocolsManager_ctor tipHeight0 tipBlockHash0 db)) N M
             = Inr (st, N', M')"
    and "find_proto (m_nftProtoIndexSet st) p = None"
  shows "ReadNftProtoIndex (platformDb st) p = None"
  by (rule cache_complete_miss [OF cache_complete_run [OF cache_complete_ctor assms(1)] assms(2)])

end
